theory Spec2Isabelle
  imports Main "HOL-Library.Word" "HOL-Library.Signed_Division"
begin

unbundle bit_operations_syntax

section \<open>Value codec (converter.ts)\<close>

text \<open>
  A \<open>Buffer\<close> is a list of bytes. A write \<open>buf[i] = b\<close> past the end of a Buffer is
  dropped without an error, which is what \<open>buf[i := b]\<close> does on a list. A \<open>bigint\<close> is
  an \<open>int\<close>; offsets and lengths are \<open>nat\<close>.
\<close>

type_synonym byte = "8 word"

subsection \<open>Variable-length integers\<close>

text \<open>
  \<open>writeVarint64\<close>: the \<open>while (v > 0x7fn)\<close> loop, with the Buffer passed through and
  returned next to the offset the source returns.
\<close>

function writeVarint64_loop :: "byte list \<Rightarrow> nat \<Rightarrow> int \<Rightarrow> byte list \<times> nat" where
  "writeVarint64_loop buf offset v =
     (if v > 0x7f
      then writeVarint64_loop (buf[offset := word_of_int (v AND 0x7f) OR 0x80])
             (offset + 1) (drop_bit 7 v)
      else (buf[offset := word_of_int v], offset + 1))"
  by pat_completeness auto
termination
  apply (relation "measure (\<lambda>(buf, offset, v). nat v)")
   apply simp
  apply (simp add: drop_bit_eq_div)
  done

definition asUintN64 :: "int \<Rightarrow> int" where
  "asUintN64 v = take_bit 64 v"

definition writeVarint64 :: "byte list \<Rightarrow> nat \<Rightarrow> int \<Rightarrow> byte list \<times> nat" where
  "writeVarint64 buf offset v =
     writeVarint64_loop buf offset (if v < 0 then asUintN64 v else v)"

text \<open>
  \<open>writeVarint32\<close> and \<open>encodeVarint\<close> work on a \<open>number\<close>: \<open>v & 0x7f\<close> keeps the low
  seven bits and \<open>v >>>= 7\<close> first reduces \<open>v\<close> to 32 bits unsigned.
\<close>

function writeVarint32 :: "byte list \<Rightarrow> nat \<Rightarrow> int \<Rightarrow> byte list \<times> nat" where
  "writeVarint32 buf offset v =
     (if v > 0x7f
      then writeVarint32 (buf[offset := word_of_int (v AND 0x7f) OR 0x80])
             (offset + 1) (drop_bit 7 (take_bit 32 v))
      else (buf[offset := word_of_int v], offset + 1))"
  by pat_completeness auto
termination
proof (relation "measure (\<lambda>(buf, offset, v). nat v)")
  fix buf :: "byte list" and offset :: nat and v :: int
  assume v: "0x7f < v"
  have "take_bit 32 v \<le> v"
    using v by (simp add: take_bit_int_less_eq_self_iff)
  moreover have "0 \<le> take_bit 32 v"
    by simp
  ultimately have "take_bit 32 v div 128 < v"
    using v by (smt (verit) zdiv_mono1 div_by_1 int_div_less_self)
  then show "((buf[offset := word_of_int (v AND 0x7f) OR 0x80], offset + 1,
               drop_bit 7 (take_bit 32 v)), (buf, offset, v))
             \<in> measure (\<lambda>(buf, offset, v). nat v)"
    using v by (simp add: drop_bit_eq_div)
qed simp

function encodeVarint :: "int \<Rightarrow> byte list" where
  "encodeVarint v =
     (if v > 0x7f
      then (word_of_int (v AND 0x7f) OR 0x80) # encodeVarint (drop_bit 7 (take_bit 32 v))
      else [word_of_int v])"
  by pat_completeness auto
termination
proof (relation "measure nat")
  fix v :: int
  assume v: "0x7f < v"
  have "take_bit 32 v \<le> v"
    using v by (simp add: take_bit_int_less_eq_self_iff)
  moreover have "0 \<le> take_bit 32 v"
    by simp
  ultimately have "take_bit 32 v div 128 < v"
    using v by (smt (verit) zdiv_mono1 div_by_1 int_div_less_self)
  then show "(drop_bit 7 (take_bit 32 v), v) \<in> measure nat"
    using v by (simp add: drop_bit_eq_div)
qed simp

text \<open>
  \<open>decodeVarint\<close>: the loop stops at the first byte without the continuation bit, or at
  the end of the Buffer.
\<close>

function decodeVarint_loop :: "byte list \<Rightarrow> nat \<Rightarrow> int \<Rightarrow> nat \<Rightarrow> nat \<Rightarrow> int \<times> nat" where
  "decodeVarint_loop buf offset result shift bytesRead =
     (if offset + bytesRead < length buf
      then (let b = buf ! (offset + bytesRead);
                result' = result OR push_bit shift (uint (b AND 0x7f));
                bytesRead' = bytesRead + 1
            in if b AND 0x80 = 0 then (result', bytesRead')
               else decodeVarint_loop buf offset result' (shift + 7) bytesRead')
      else (result, bytesRead))"
  by pat_completeness auto
termination
  by (relation "measure (\<lambda>(buf, offset, result, shift, bytesRead).
         length buf - (offset + bytesRead))") auto

definition decodeVarint :: "byte list \<Rightarrow> nat \<Rightarrow> int \<times> nat" where
  "decodeVarint buf offset = decodeVarint_loop buf offset 0 0 0"

text \<open>The bytes the loop of \<open>writeVarint64\<close> produces for \<open>v\<close>, as a list.\<close>

function varint_bytes :: "int \<Rightarrow> byte list" where
  "varint_bytes v =
     (if v > 0x7f then (word_of_int (v AND 0x7f) OR 0x80) # varint_bytes (drop_bit 7 v)
      else [word_of_int v])"
  by pat_completeness auto
termination
  apply (relation "measure nat")
   apply simp
  apply (simp add: drop_bit_eq_div)
  done

subsection \<open>JavaScript values\<close>

text \<open>
  A \<open>number\<close> is a double. One that \<open>Number.isInteger\<close> accepts is given by its integer
  value, every other one (fractions, NaN, the infinities) by its 64 bits. \<open>double_int\<close>
  reads the bits of a double and returns its value when that is an integer.
\<close>

datatype jsnumber = Integral int | NonIntegral "64 word"

definition double_int :: "64 word \<Rightarrow> int option" where
  "double_int w =
     (let e = take_bit 11 (drop_bit 52 (uint w));
          m = take_bit 52 (uint w);
          sg = (if bit w 63 then - 1 else 1);
          s = 2 ^ 52 + m
      in if e = 2047 then None
         else if e = 0 then (if m = 0 then Some 0 else None)
         else if 1075 \<le> e then Some (sg * s * 2 ^ nat (e - 1075))
         else if s mod 2 ^ nat (1075 - e) = 0 then Some (sg * (s div 2 ^ nat (1075 - e)))
         else None)"

definition number_of_double :: "64 word \<Rightarrow> jsnumber" where
  "number_of_double w = (case double_int w of Some i \<Rightarrow> Integral i | None \<Rightarrow> NonIntegral w)"

text \<open>The same for the 32 bits of a single-precision float, widened to a double.\<close>

definition float_int :: "32 word \<Rightarrow> int option" where
  "float_int w =
     (let e = take_bit 8 (drop_bit 23 (uint w));
          m = take_bit 23 (uint w);
          sg = (if bit w 31 then - 1 else 1);
          s = 2 ^ 23 + m
      in if e = 255 then None
         else if e = 0 then (if m = 0 then Some 0 else None)
         else if 150 \<le> e then Some (sg * s * 2 ^ nat (e - 150))
         else if s mod 2 ^ nat (150 - e) = 0 then Some (sg * (s div 2 ^ nat (150 - e)))
         else None)"

function bitlen :: "int \<Rightarrow> nat" where
  "bitlen n = (if n \<le> 0 then 0 else Suc (bitlen (n div 2)))"
  by pat_completeness auto
termination
  by (relation "measure nat") auto

definition float_widen :: "32 word \<Rightarrow> 64 word" where
  "float_widen w =
     (let e = take_bit 8 (drop_bit 23 (uint w));
          m = take_bit 23 (uint w);
          sg = (if bit w 31 then push_bit 63 1 else 0);
          p = bitlen m - 1
      in word_of_int
           (sg OR
            (if e = 255 then push_bit 52 2047 OR push_bit 29 m
             else if e = 0 then
               (if m = 0 then 0
                else push_bit 52 (int p + 874) OR push_bit (52 - p) (m - 2 ^ p))
             else push_bit 52 (e + 896) OR push_bit 29 m)))"

definition number_of_float :: "32 word \<Rightarrow> jsnumber" where
  "number_of_float w =
     (case float_int w of Some i \<Rightarrow> Integral i | None \<Rightarrow> NonIntegral (float_widen w))"

text \<open>
  \<open>Number(value)\<close> on a \<open>bigint\<close> rounds to the nearest double, ties to even, and gives
  an infinity from \<open>2 ^ 1024\<close> on.
\<close>

definition round_to_double :: "int \<Rightarrow> int" where
  "round_to_double n =
     (let e = bitlen n
      in if e \<le> 53 then n
         else (let sh = e - 53;
                   q = drop_bit sh n;
                   r = take_bit sh n;
                   half = 2 ^ (sh - 1);
                   q' = (if half < r \<or> (r = half \<and> odd q) then q + 1 else q)
               in push_bit sh q'))"

definition Number_of_bigint :: "int \<Rightarrow> jsnumber" where
  "Number_of_bigint n =
     (let m = round_to_double \<bar>n\<bar>
      in if m < 2 ^ 1024 then Integral (if n < 0 then - m else m)
         else NonIntegral (if n < 0 then 0xFFF0000000000000 else 0x7FF0000000000000))"

text \<open>
  The values \<open>toAny\<close> tells apart. A \<open>Date\<close> holds its time value in milliseconds,
  \<open>None\<close> for an invalid date. \<open>Other t\<close> is any value the source has no branch for,
  \<open>t\<close> being what \<open>typeof\<close> says of it.
\<close>

datatype jsvalue =
    Null
  | Undefined
  | Str string
  | Num jsnumber
  | BigInt int
  | Bool bool
  | Date "int option"
  | Buffer "byte list"
  | Other string

datatype error =
    UnsupportedType string
  | RangeError
  | EmptyCatalog
  | NoReplica
  | Timeout int
  | TransportError string
  | ServerError string
  | SyntaxError
  | EngineError string

record AnyValue =
  type_url :: "string option"
  any_value :: "byte list"

definition TYPE_URL_PREFIX :: string where
  "TYPE_URL_PREFIX = ''type.googleapis.com/google.protobuf.''"

subsection \<open>Buffer operations\<close>

definition alloc :: "nat \<Rightarrow> byte list" where
  "alloc n = replicate n 0"

text \<open>\<open>src.copy(target, targetStart)\<close> copies as many bytes as fit.\<close>

definition copy :: "byte list \<Rightarrow> byte list \<Rightarrow> nat \<Rightarrow> byte list" where
  "copy src target targetStart =
     take targetStart target @ take (length target - targetStart) src
       @ drop (targetStart + length src) target"

text \<open>\<open>buf.subarray(start, end)\<close> and \<open>buf.toString('utf8', start, end)\<close> clamp to the Buffer.\<close>

definition subarray :: "byte list \<Rightarrow> nat \<Rightarrow> nat \<Rightarrow> byte list" where
  "subarray buf start stop = take (stop - start) (drop start buf)"

primrec le_bytes :: "nat \<Rightarrow> 'a::len word \<Rightarrow> byte list" where
  "le_bytes 0 w = []"
| "le_bytes (Suc k) w = ucast w # le_bytes k (drop_bit 8 w)"

definition le_bytes64 :: "64 word \<Rightarrow> byte list" where
  "le_bytes64 w = le_bytes 8 w"

definition of_le_bytes :: "byte list \<Rightarrow> 'a::len word" where
  "of_le_bytes bs = foldr (\<lambda>b acc. ucast b OR push_bit 8 acc) bs 0"

definition writeDoubleLE :: "byte list \<Rightarrow> 64 word \<Rightarrow> nat \<Rightarrow> byte list" where
  "writeDoubleLE buf w offset = copy (le_bytes64 w) buf offset"

definition readDoubleLE :: "byte list \<Rightarrow> nat \<Rightarrow> jsnumber" where
  "readDoubleLE buf offset = number_of_double (of_le_bytes (subarray buf offset (offset + 8)))"

definition readFloatLE :: "byte list \<Rightarrow> nat \<Rightarrow> jsnumber" where
  "readFloatLE buf offset = number_of_float (of_le_bytes (subarray buf offset (offset + 4)))"

subsection \<open>toAny\<close>

text \<open>
  \<open>Buffer.from(s, 'utf8')\<close> and \<open>buf.toString('utf8', ...)\<close> belong to the platform:
  \<open>toAny\<close> takes the encoder and \<open>fromAny\<close> the decoder as a parameter.
\<close>

text \<open>
  The string branch and the Buffer branch of \<open>toAny\<close> build the same payload from the
  bytes they are given: the header \<open>0x0a\<close>, the length as a varint, the bytes.
\<close>

definition length_delimited :: "byte list \<Rightarrow> byte list" where
  "length_delimited bytes =
     (let lenBytes = encodeVarint (int (length bytes));
          buf = alloc (1 + length lenBytes + length bytes);
          buf = buf[0 := 0x0a];
          buf = copy lenBytes buf 1;
          buf = copy bytes buf (1 + length lenBytes)
      in buf)"

definition toAny :: "(string \<Rightarrow> byte list) \<Rightarrow> jsvalue \<Rightarrow> error + AnyValue" where
  "toAny utf8 v =
     (case v of
        Null \<Rightarrow> Inr \<lparr>type_url = Some (TYPE_URL_PREFIX @ ''Empty''), any_value = alloc 0\<rparr>
      | Undefined \<Rightarrow> Inr \<lparr>type_url = Some (TYPE_URL_PREFIX @ ''Empty''), any_value = alloc 0\<rparr>
      | Str s \<Rightarrow>
          Inr \<lparr>type_url = Some (TYPE_URL_PREFIX @ ''StringValue''),
               any_value = length_delimited (utf8 s)\<rparr>
      | Num (Integral i) \<Rightarrow>
          (let buf = alloc 9;
               buf = buf[0 := 0x08];
               (buf, len) = writeVarint64 buf 1 i
           in Inr \<lparr>type_url = Some (TYPE_URL_PREFIX @ ''Int64Value''),
                    any_value = subarray buf 0 len\<rparr>)
      | Num (NonIntegral w) \<Rightarrow>
          (let buf = alloc 9;
               buf = buf[0 := 0x09];
               buf = writeDoubleLE buf w 1
           in Inr \<lparr>type_url = Some (TYPE_URL_PREFIX @ ''DoubleValue''), any_value = buf\<rparr>)
      | BigInt i \<Rightarrow>
          (let buf = alloc 11;
               buf = buf[0 := 0x08];
               (buf, len) = writeVarint64 buf 1 i
           in Inr \<lparr>type_url = Some (TYPE_URL_PREFIX @ ''Int64Value''),
                    any_value = subarray buf 0 len\<rparr>)
      | Bool b \<Rightarrow>
          Inr \<lparr>type_url = Some (TYPE_URL_PREFIX @ ''BoolValue''),
               any_value = [0x08, if b then 0x01 else 0x00]\<rparr>
      | Date t \<Rightarrow>
          (case t of
             None \<Rightarrow> Inl RangeError
           | Some ms \<Rightarrow>
               (let seconds = ms div 1000;
                    nanos = (ms smod 1000) * 1000000;
                    buf = alloc 20;
                    buf = buf[0 := 0x08];
                    (buf, offset) = writeVarint64 buf 1 seconds;
                    buf = buf[offset := 0x10];
                    (buf, offset) = writeVarint32 buf (offset + 1) nanos
                in Inr \<lparr>type_url = Some (TYPE_URL_PREFIX @ ''Timestamp''),
                         any_value = subarray buf 0 offset\<rparr>))
      | Buffer bytes \<Rightarrow>
          Inr \<lparr>type_url = Some (TYPE_URL_PREFIX @ ''BytesValue''),
               any_value = length_delimited bytes\<rparr>
      | Other t \<Rightarrow> Inl (UnsupportedType t))"

subsection \<open>fromAny\<close>

text \<open>
  \<open>parseStringValue\<close> and \<open>parseBytesValue\<close> take \<open>Number(len)\<close> bytes from the offset;
  where \<open>Number\<close> rounds, the length is beyond that of any Buffer and the slice ends at
  the end of the Buffer either way, so the model takes \<open>len\<close> bytes.
\<close>

definition parseStringValue :: "(byte list \<Rightarrow> string) \<Rightarrow> byte list \<Rightarrow> string" where
  "parseStringValue utf8_decode buf =
     (if length buf < 2 then ''''
      else (let (len, bytesRead) = decodeVarint buf 1;
                offset = 1 + bytesRead
            in utf8_decode (subarray buf offset (offset + nat len))))"

definition parseDoubleValue :: "byte list \<Rightarrow> jsnumber" where
  "parseDoubleValue buf = (if length buf < 9 then Integral 0 else readDoubleLE buf 1)"

definition parseFloatValue :: "byte list \<Rightarrow> jsnumber" where
  "parseFloatValue buf = (if length buf < 5 then Integral 0 else readFloatLE buf 1)"

definition parseVarintValue :: "byte list \<Rightarrow> jsnumber" where
  "parseVarintValue buf =
     (if length buf < 2 then Integral 0 else Number_of_bigint (fst (decodeVarint buf 1)))"

definition parseVarint32Value :: "byte list \<Rightarrow> jsnumber" where
  "parseVarint32Value buf =
     (if length buf < 2 then Integral 0 else Number_of_bigint (fst (decodeVarint buf 1)))"

definition parseBoolValue :: "byte list \<Rightarrow> bool" where
  "parseBoolValue buf = (if length buf < 2 then False else buf ! 1 \<noteq> 0)"

text \<open>
  \<open>new Date(Number(seconds) * 1000 + Math.floor(nanos / 1000000))\<close>: the sum is computed
  on integers, which is what the doubles give while the operands are below \<open>2 ^ 53\<close>;
  a time value beyond \<open>8.64e15\<close> milliseconds is an invalid date.
\<close>

definition TimeClip :: "int \<Rightarrow> int option" where
  "TimeClip t = (if \<bar>t\<bar> \<le> 8640000000000000 then Some t else None)"

definition new_Date :: "jsnumber \<Rightarrow> jsnumber \<Rightarrow> jsvalue" where
  "new_Date seconds nanos =
     (case (seconds, nanos) of
        (Integral s, Integral n) \<Rightarrow> Date (TimeClip (s * 1000 + n div 1000000))
      | _ \<Rightarrow> Date None)"

definition parseTimestampValue :: "byte list \<Rightarrow> jsvalue" where
  "parseTimestampValue buf =
     (let (seconds, bytesRead) = decodeVarint buf 1;
          offset = 1 + bytesRead;
          nanos = (if offset < length buf \<and> buf ! offset = 0x10
                   then Number_of_bigint (fst (decodeVarint buf (offset + 1)))
                   else Integral 0)
      in new_Date (Number_of_bigint seconds) nanos)"

definition parseBytesValue :: "byte list \<Rightarrow> byte list" where
  "parseBytesValue buf =
     (if length buf < 2 then alloc 0
      else (let (len, bytesRead) = decodeVarint buf 1;
                offset = 1 + bytesRead
            in subarray buf offset (offset + nat len)))"

text \<open>
  \<open>fromAny\<close>: an absent envelope and an absent or empty \<open>type_url\<close> give \<open>null\<close> before
  the \<open>switch\<close> is reached.
\<close>

definition fromAny :: "(byte list \<Rightarrow> string) \<Rightarrow> AnyValue option \<Rightarrow> error + jsvalue" where
  "fromAny utf8_decode a =
     (case a of
        None \<Rightarrow> Inr Null
      | Some av \<Rightarrow>
          (case type_url av of
             None \<Rightarrow> Inr Null
           | Some typeUrl \<Rightarrow>
               if typeUrl = '''' then Inr Null
               else if typeUrl = TYPE_URL_PREFIX @ ''Empty'' then Inr Null
               else if typeUrl = TYPE_URL_PREFIX @ ''StringValue''
                 then Inr (Str (parseStringValue utf8_decode (any_value av)))
               else if typeUrl = TYPE_URL_PREFIX @ ''DoubleValue''
                 then Inr (Num (parseDoubleValue (any_value av)))
               else if typeUrl = TYPE_URL_PREFIX @ ''FloatValue''
                 then Inr (Num (parseFloatValue (any_value av)))
               else if typeUrl = TYPE_URL_PREFIX @ ''Int64Value''
                       \<or> typeUrl = TYPE_URL_PREFIX @ ''UInt64Value''
                 then Inr (Num (parseVarintValue (any_value av)))
               else if typeUrl = TYPE_URL_PREFIX @ ''Int32Value''
                       \<or> typeUrl = TYPE_URL_PREFIX @ ''UInt32Value''
                 then Inr (Num (parseVarint32Value (any_value av)))
               else if typeUrl = TYPE_URL_PREFIX @ ''BoolValue''
                 then Inr (Bool (parseBoolValue (any_value av)))
               else if typeUrl = TYPE_URL_PREFIX @ ''Timestamp''
                 then Inr (parseTimestampValue (any_value av))
               else if typeUrl = TYPE_URL_PREFIX @ ''BytesValue''
                 then Inr (Buffer (parseBytesValue (any_value av)))
               else Inl (UnsupportedType typeUrl)))"

text \<open>The tags \<open>fromAny\<close> has a case for, and an ASCII instance of the platform's UTF-8.\<close>

definition supported_tags :: "string list" where
  "supported_tags =
     [''Empty'', ''StringValue'', ''DoubleValue'', ''FloatValue'', ''Int64Value'',
      ''UInt64Value'', ''Int32Value'', ''UInt32Value'', ''BoolValue'', ''Timestamp'',
      ''BytesValue'']"

definition ascii_encode :: "string \<Rightarrow> byte list" where
  "ascii_encode s = map (\<lambda>c. word_of_nat (of_char c)) s"

definition ascii_decode :: "byte list \<Rightarrow> string" where
  "ascii_decode bs = map (\<lambda>b. char_of (unat b)) bs"

text \<open>
  What the specification calls an undersized payload and the zero value of a tag: a
  well-formed payload has the field header and at least one more byte, eight more for
  a double and four more for a float.
\<close>

definition min_payload :: "string \<Rightarrow> nat" where
  "min_payload tag =
     (if tag = ''Empty'' then 1
      else if tag = ''DoubleValue'' then 9
      else if tag = ''FloatValue'' then 5
      else 2)"

definition zero_value :: "string \<Rightarrow> jsvalue" where
  "zero_value tag =
     (if tag = ''Empty'' then Null
      else if tag = ''StringValue'' then Str ''''
      else if tag = ''BoolValue'' then Bool False
      else if tag = ''Timestamp'' then Date (Some 0)
      else if tag = ''BytesValue'' then Buffer []
      else Num (Integral 0))"

definition envelope :: "string \<Rightarrow> byte list \<Rightarrow> AnyValue option" where
  "envelope url p = Some \<lparr>type_url = Some url, any_value = p\<rparr>"


text \<open>\<open>fromAny(toAny(v))\<close>, an error of \<open>toAny\<close> being passed on.\<close>

definition roundtrip :: "(string \<Rightarrow> byte list) \<Rightarrow> (byte list \<Rightarrow> string) \<Rightarrow> jsvalue \<Rightarrow> error + jsvalue" where
  "roundtrip utf8 utf8_decode v =
     (case toAny utf8 v of Inl e \<Rightarrow> Inl e | Inr av \<Rightarrow> fromAny utf8_decode (Some av))"


section \<open>Request multiplexer (ha-client.ts)\<close>

datatype QueryType = QUERY_TYPE_UNSPECIFIED | QUERY_TYPE_EXEC_QUERY | QUERY_TYPE_EXEC_UPDATE

record NamedValue =
  name :: "string option"
  ordinal :: jsnumber
  param_value :: AnyValue

record QueryRequest =
  replication_id :: string
  sql :: string
  query_type :: QueryType
  params :: "NamedValue list"

record QueryResponse =
  result_set :: "(string list \<times> AnyValue list list) option"
  rows_affected :: int
  resp_txseq :: int
  resp_error :: string

subsection \<open>Parameters of a call\<close>

text \<open>
  The \<open>parameters\<close> argument of \<open>send\<close> is \<open>null\<close>, a \<open>Map\<close> (its entries in insertion
  order, a key being a string or a number) or a plain object, given by its own
  enumerable string-keyed properties in the order they were created.

  \<open>Object.entries\<close> does not list the properties in creation order: the keys that are
  array indices (canonical decimal numerals below \<open>2 ^ 32 - 1\<close>) come first, in ascending
  numeric order, and the other keys follow in creation order.
\<close>

datatype key = KString string | KNumber jsnumber

datatype parameters =
    NoParameters
  | MapParameters "(key \<times> jsvalue) list"
  | ObjectParameters "(string \<times> jsvalue) list"

definition is_digit :: "char \<Rightarrow> bool" where
  "is_digit c = (48 \<le> (of_char c :: int) \<and> (of_char c :: int) \<le> 57)"

definition decimal_value :: "string \<Rightarrow> int" where
  "decimal_value k = foldl (\<lambda>a c. 10 * a + (of_char c - 48)) 0 k"

definition array_index :: "string \<Rightarrow> int option" where
  "array_index k =
     (if k \<noteq> [] \<and> list_all is_digit k \<and> (length k = 1 \<or> hd k \<noteq> CHR 0x30)
         \<and> decimal_value k < 2 ^ 32 - 1
      then Some (decimal_value k) else None)"

definition Object_entries :: "(string \<times> 'v) list \<Rightarrow> (string \<times> 'v) list" where
  "Object_entries props =
     map snd (sort_key fst
       (List.map_filter (\<lambda>(k, v). map_option (\<lambda>n. (n, (k, v))) (array_index k)) props))
     @ filter (\<lambda>(k, v). array_index k = None) props"

definition entries :: "parameters \<Rightarrow> (key \<times> jsvalue) list" where
  "entries ps =
     (case ps of
        NoParameters \<Rightarrow> []
      | MapParameters es \<Rightarrow> es
      | ObjectParameters props \<Rightarrow> map (\<lambda>(k, v). (KString k, v)) (Object_entries props))"

text \<open>
  The loop \<open>for (const [key, value] of entries)\<close> of \<open>send\<close>, with its counter. An error
  of \<open>toAny\<close> leaves the loop, and \<open>send\<close>, at once.
\<close>

fun encode_params :: "(string \<Rightarrow> byte list) \<Rightarrow> (key \<times> jsvalue) list \<Rightarrow> nat \<Rightarrow> error + NamedValue list" where
  "encode_params utf8 [] ord = Inr []"
| "encode_params utf8 ((k, v) # es) ord =
     (case toAny utf8 v of
        Inl e \<Rightarrow> Inl e
      | Inr a \<Rightarrow>
          (case encode_params utf8 es (ord + 1) of
             Inl e \<Rightarrow> Inl e
           | Inr ps \<Rightarrow>
               Inr (\<lparr>name = (case k of KNumber n \<Rightarrow> None | KString s \<Rightarrow> Some s),
                      ordinal = (case k of KNumber n \<Rightarrow> n | KString s \<Rightarrow> Integral (int ord)),
                      param_value = a\<rparr> # ps)))"

definition build_params :: "(string \<Rightarrow> byte list) \<Rightarrow> parameters \<Rightarrow> error + NamedValue list" where
  "build_params utf8 ps = encode_params utf8 (entries ps) 1"

definition names_ordinals :: "error + NamedValue list \<Rightarrow> (string option \<times> jsnumber) list" where
  "names_ordinals r = (case r of Inl e \<Rightarrow> [] | Inr ps \<Rightarrow> map (\<lambda>p. (name p, ordinal p)) ps)"

subsection \<open>The client and its stream\<close>

text \<open>
  The fields of \<open>HAClient\<close> that \<open>send\<close> and the stream handlers use. An open stream is
  the list of requests written to it. \<open>responsePromise\<close> holds the number of the call
  whose \<open>resolve\<close> and \<open>reject\<close> are installed. Beside the fields, \<open>promises\<close> has the
  state of the promise every call of \<open>send\<close> returned, by call number, and \<open>timers\<close> the
  calls whose timeout is armed. Settling a promise that is settled already does nothing.
\<close>

datatype promise = Pending | Resolved QueryResponse | Rejected error

record HAClient =
  requestStream :: "QueryRequest list option"
  responsePromise :: "nat option"
  replicationID :: string
  txseq :: int
  timeout :: int
  promises :: "promise list"
  timers :: "nat list"

definition new_HAClient :: "string \<Rightarrow> int \<Rightarrow> HAClient" where
  "new_HAClient rid t =
     \<lparr>requestStream = Some [], responsePromise = None, replicationID = rid, txseq = 0,
      timeout = t, promises = [], timers = []\<rparr>"

definition settle :: "nat \<Rightarrow> promise \<Rightarrow> promise list \<Rightarrow> promise list" where
  "settle i outcome ps = (if i < length ps \<and> ps ! i = Pending then ps[i := outcome] else ps)"

definition initQueryStream :: "HAClient \<Rightarrow> HAClient" where
  "initQueryStream c = c\<lparr>requestStream := Some []\<rparr>"

text \<open>The \<open>'data'\<close>, \<open>'error'\<close> and \<open>'end'\<close> handlers of the stream.\<close>

definition on_data :: "HAClient \<Rightarrow> QueryResponse \<Rightarrow> HAClient" where
  "on_data c response =
     (let c = (if resp_txseq response > 0 then c\<lparr>txseq := resp_txseq response\<rparr> else c)
      in case responsePromise c of
           None \<Rightarrow> c
         | Some i \<Rightarrow>
             c\<lparr>timers := removeAll i (timers c),
               promises := settle i (Resolved response) (promises c),
               responsePromise := None\<rparr>)"

definition on_error :: "HAClient \<Rightarrow> string \<Rightarrow> HAClient" where
  "on_error c err =
     (case responsePromise c of
        None \<Rightarrow> c
      | Some i \<Rightarrow>
          c\<lparr>timers := removeAll i (timers c),
            promises := settle i (Rejected (TransportError err)) (promises c),
            responsePromise := None\<rparr>)"

definition on_end :: "HAClient \<Rightarrow> HAClient" where
  "on_end c = c\<lparr>requestStream := None\<rparr>"

text \<open>The callback of \<open>setTimeout\<close>; a cleared timer does not fire.\<close>

definition on_timeout :: "HAClient \<Rightarrow> nat \<Rightarrow> HAClient" where
  "on_timeout c i =
     (if i \<in> set (timers c)
      then c\<lparr>timers := removeAll i (timers c),
             promises := settle i (Rejected (Timeout (timeout c))) (promises c)\<rparr>
      else c)"

text \<open>
  \<open>send\<close> has no \<open>await\<close>: a call runs to its end before anything else does. It opens
  a stream when there is none, encodes the parameters, creates the promise, arms the
  timer, installs the promise's \<open>resolve\<close> and \<open>reject\<close> and writes the request.
\<close>

definition send :: "(string \<Rightarrow> byte list) \<Rightarrow> HAClient \<Rightarrow> string \<Rightarrow> parameters \<Rightarrow> QueryType \<Rightarrow> HAClient" where
  "send utf8 c0 statement ps qt =
     (let c = (if requestStream c0 = None then initQueryStream c0 else c0)
      in case build_params utf8 ps of
           Inl e \<Rightarrow> c\<lparr>promises := promises c @ [Rejected e]\<rparr>
         | Inr encoded \<Rightarrow>
             (let request = \<lparr>replication_id = replicationID c, sql = statement,
                              query_type = qt, params = encoded\<rparr>;
                  i = length (promises c)
              in c\<lparr>promises := promises c @ [Pending],
                   timers := timers c @ [i],
                   responsePromise := Some i,
                   requestStream := map_option (\<lambda>written. written @ [request]) (requestStream c)\<rparr>))"

text \<open>What can happen to a client, one thing at a time, and a run of such events.\<close>

datatype event =
    Send string parameters QueryType
  | Data QueryResponse
  | StreamError string
  | StreamEnd
  | TimerFires nat

fun step :: "(string \<Rightarrow> byte list) \<Rightarrow> HAClient \<Rightarrow> event \<Rightarrow> HAClient" where
  "step utf8 c (Send statement ps qt) = send utf8 c statement ps qt"
| "step utf8 c (Data response) = on_data c response"
| "step utf8 c (StreamError err) = on_error c err"
| "step utf8 c StreamEnd = on_end c"
| "step utf8 c (TimerFires i) = on_timeout c i"

definition run :: "(string \<Rightarrow> byte list) \<Rightarrow> HAClient \<Rightarrow> event list \<Rightarrow> HAClient" where
  "run utf8 c es = foldl (step utf8) c es"

definition unsettled :: "HAClient \<Rightarrow> nat list" where
  "unsettled c = filter (\<lambda>i. promises c ! i = Pending) [0..<length (promises c)]"

definition written :: "HAClient \<Rightarrow> QueryRequest list" where
  "written c = (case requestStream c of None \<Rightarrow> [] | Some ws \<Rightarrow> ws)"

text \<open>
  Callers that await each call before they make the next: every \<open>Send\<close> of the run
  finds no unsettled call.
\<close>

fun serial :: "(string \<Rightarrow> byte list) \<Rightarrow> HAClient \<Rightarrow> event list \<Rightarrow> bool" where
  "serial utf8 c [] = True"
| "serial utf8 c (e # es) =
     ((case e of Send statement ps qt \<Rightarrow> unsettled c = [] | _ \<Rightarrow> True)
      \<and> serial utf8 (step utf8 c e) es)"

text \<open>The tracked sequence number after each of a list of responses.\<close>

fun txseq_trace :: "HAClient \<Rightarrow> QueryResponse list \<Rightarrow> int list" where
  "txseq_trace c [] = []"
| "txseq_trace c (r # rs) = txseq (on_data c r) # txseq_trace (on_data c r) rs"


section \<open>Replica registry (embedded-replicas.ts)\<close>

text \<open>
  The registry's \<open>replicas\<close> is a \<open>Map\<close> from file names to replica records: an
  association list in insertion order, with distinct keys. The database a replica holds
  belongs to the embedded engine and is left abstract (\<open>'db\<close>); \<open>db.exec\<close> is a
  parameter that returns the database after the statement or the engine's error.
\<close>

record 'db ReplicaConnection =
  db :: 'db
  replica_txseq :: int
  dsn :: string

type_synonym 'db replicas = "(string \<times> 'db ReplicaConnection) list"

definition getReplica :: "'db replicas \<Rightarrow> string \<Rightarrow> 'db ReplicaConnection option" where
  "getReplica replicas dbName =
     (if length replicas = 1 \<and> dbName = '''' then Some (snd (hd replicas))
      else map_of replicas dbName)"

definition isReplicaUpdated :: "'db replicas \<Rightarrow> string \<Rightarrow> int \<Rightarrow> bool" where
  "isReplicaUpdated replicas dbName seq =
     (case getReplica replicas dbName of
        None \<Rightarrow> False
      | Some replica \<Rightarrow> replica_txseq replica \<ge> seq)"

text \<open>
  A replication message after \<open>JSON.parse\<close>: the two fields the code reads, each of them
  possibly absent. \<open>if (message.sql)\<close> and \<open>if (message.txseq)\<close> are false for an absent
  field, for the empty string and for 0. A payload that does not parse is \<open>None\<close>.
\<close>

record ReplicationMessage =
  msg_sql :: "string option"
  msg_txseq :: "int option"

definition set_replica :: "'db replicas \<Rightarrow> string \<Rightarrow> 'db ReplicaConnection \<Rightarrow> 'db replicas" where
  "set_replica replicas k r = map (\<lambda>(k', r'). if k' = k then (k', r) else (k', r')) replicas"

definition applyReplicationMessage ::
  "('db \<Rightarrow> string \<Rightarrow> error + 'db) \<Rightarrow> 'db replicas \<Rightarrow> string \<Rightarrow> ReplicationMessage option
     \<Rightarrow> error option \<times> 'db replicas" where
  "applyReplicationMessage db_exec replicas replicaName data =
     (case map_of replicas replicaName of
        None \<Rightarrow> (None, replicas)
      | Some replica \<Rightarrow>
          (case data of
             None \<Rightarrow> (Some SyntaxError, replicas)
           | Some message \<Rightarrow>
               (case (case msg_sql message of
                        None \<Rightarrow> Inr (db replica)
                      | Some statement \<Rightarrow>
                          if statement = '''' then Inr (db replica)
                          else db_exec (db replica) statement) of
                  Inl e \<Rightarrow> (Some e, replicas)
                | Inr db' \<Rightarrow>
                    (let replica = replica\<lparr>db := db'\<rparr>;
                         replica = (case msg_txseq message of
                                      None \<Rightarrow> replica
                                    | Some seq \<Rightarrow>
                                        if seq = 0 then replica
                                        else replica\<lparr>replica_txseq := seq\<rparr>)
                     in (None, set_replica replicas replicaName replica)))))"

text \<open>Applying a list of messages to one replica; a failed message is logged and skipped.\<close>

fun apply_all ::
  "('db \<Rightarrow> string \<Rightarrow> error + 'db) \<Rightarrow> 'db replicas \<Rightarrow> string \<Rightarrow> ReplicationMessage option list
     \<Rightarrow> 'db replicas" where
  "apply_all db_exec replicas replicaName [] = replicas"
| "apply_all db_exec replicas replicaName (m # ms) =
     apply_all db_exec (snd (applyReplicationMessage db_exec replicas replicaName m)) replicaName ms"

definition tracked :: "'db replicas \<Rightarrow> string \<Rightarrow> int option" where
  "tracked replicas replicaName = map_option replica_txseq (map_of replicas replicaName)"

section \<open>Consistency router (ha-connection.ts)\<close>

text \<open>
  The read-only handles that \<open>createConnection\<close> opens live in a store, by address; a
  connection holds the address of its handle. \<open>replicasManager\<close> is the connection's
  reference to the registry, which is one object for the whole process: the field says
  whether the reference is there. Opening a file belongs to the engine: \<open>db_open\<close> says
  whether it succeeds.
\<close>

record Database =
  db_file :: string
  readonly :: bool
  is_open :: bool

record 'db world =
  registry :: "'db replicas"
  handles :: "Database list"

record HAConnection =
  client :: HAClient
  embeddedReplica :: "nat option"
  replicasManager :: bool
  closed :: bool
  autoCommit :: bool
  readOnly :: bool

definition createConnection ::
  "(string \<Rightarrow> bool) \<Rightarrow> 'db world \<Rightarrow> string \<Rightarrow> (error + nat option) \<times> 'db world" where
  "createConnection db_open w dbName =
     (case getReplica (registry w) dbName of
        None \<Rightarrow> (Inr None, w)
      | Some replica \<Rightarrow>
          if db_open (dsn replica)
          then (Inr (Some (length (handles w))),
                w\<lparr>handles := handles w
                     @ [\<lparr>db_file = dsn replica, readonly = True, is_open = True\<rparr>]\<rparr>)
          else (Inl (EngineError (dsn replica)), w))"

definition close_handle :: "'db world \<Rightarrow> nat \<Rightarrow> 'db world" where
  "close_handle w h = w\<lparr>handles := (handles w)[h := (handles w ! h)\<lparr>is_open := False\<rparr>]\<rparr>"

text \<open>
  The constructor. \<open>options\<close> has the catalog named in the URL's path, the timeout and
  the two replication settings the constructor tests; the other settings do not reach
  the fields modelled here.
\<close>

record HAConnectionOptions =
  url_path :: string
  timeout_option :: "int option"
  embeddedReplicasDir :: "string option"
  replicationUrl :: "string option"

definition is_set :: "string option \<Rightarrow> bool" where
  "is_set s = (case s of None \<Rightarrow> False | Some v \<Rightarrow> v \<noteq> '''')"

definition new_HAConnection ::
  "(string \<Rightarrow> bool) \<Rightarrow> 'db world \<Rightarrow> HAConnectionOptions \<Rightarrow> (error + HAConnection) \<times> 'db world" where
  "new_HAConnection db_open w options =
     (let c = \<lparr>client = new_HAClient (url_path options)
                           (case timeout_option options of None \<Rightarrow> 30 | Some t \<Rightarrow> t),
                embeddedReplica = None, replicasManager = False, closed = False,
                autoCommit = True, readOnly = False\<rparr>
      in if is_set (embeddedReplicasDir options) \<and> is_set (replicationUrl options)
         then (case createConnection db_open w (replicationID (client c)) of
                 (Inl e, w) \<Rightarrow> (Inl e, w)
               | (Inr h, w) \<Rightarrow> (Inr (c\<lparr>replicasManager := True, embeddedReplica := h\<rparr>), w))
         else (Inr c, w))"


text \<open>
  A statement is a JavaScript string whose code units are below 256; a \<open>char\<close> is such
  a code unit. \<open>trim\<close> removes white space and line terminators at both ends: of the
  code units below 256 these are tab, line feed, vertical tab, form feed, carriage
  return, space and the no-break space. \<open>toUpperCase\<close> may leave this range
  (\<open>0xB5\<close> and \<open>0xFF\<close>) and turns \<open>0xDF\<close> into two letters, so its result is a
  list of code units given as numbers.
\<close>

definition is_space :: "char \<Rightarrow> bool" where
  "is_space c = ((of_char c :: nat) \<in> {9, 10, 11, 12, 13, 32, 160})"

definition trim :: "string \<Rightarrow> string" where
  "trim s = rev (dropWhile is_space (rev (dropWhile is_space s)))"

definition upper_units :: "char \<Rightarrow> nat list" where
  "upper_units c =
     (let n = of_char c
      in if 97 \<le> n \<and> n \<le> 122 then [n - 32]
         else if n = 181 then [924]
         else if n = 223 then [83, 83]
         else if 224 \<le> n \<and> n \<le> 254 \<and> n \<noteq> 247 then [n - 32]
         else if n = 255 then [376]
         else [n])"

definition toUpperCase :: "string \<Rightarrow> nat list" where
  "toUpperCase s = concat (map upper_units s)"

definition startsWith :: "nat list \<Rightarrow> string \<Rightarrow> bool" where
  "startsWith s p = (take (length p) s = map of_char p)"

definition isSelectQuery :: "string \<Rightarrow> bool" where
  "isSelectQuery statement =
     (let trimmed = toUpperCase (trim statement)
      in startsWith trimmed ''SELECT'' \<or> startsWith trimmed ''PRAGMA''
         \<or> startsWith trimmed ''EXPLAIN'' \<or> startsWith trimmed ''WITH'')"

text \<open>
  \<open>query\<close> either runs the statement on the connection's replica handle or hands it to
  the client's \<open>executeQuery\<close>; the result says which, and with what.
\<close>

datatype routed =
    ExecuteOnReplica nat string parameters
  | ClientExecuteQuery string parameters

definition query :: "'db world \<Rightarrow> HAConnection \<Rightarrow> string \<Rightarrow> parameters \<Rightarrow> routed" where
  "query w c statement ps =
     (case embeddedReplica c of
        None \<Rightarrow> ClientExecuteQuery statement ps
      | Some h \<Rightarrow>
          if replicasManager c \<and> isSelectQuery statement
             \<and> isReplicaUpdated (registry w) (replicationID (client c)) (txseq (client c))
          then ExecuteOnReplica h statement ps
          else ClientExecuteQuery statement ps)"

text \<open>\<open>setCatalog\<close> returns the error it threw, if any, next to the state it leaves.\<close>

definition setCatalog ::
  "(string \<Rightarrow> bool) \<Rightarrow> 'db world \<Rightarrow> HAConnection \<Rightarrow> string
     \<Rightarrow> error option \<times> 'db world \<times> HAConnection" where
  "setCatalog db_open w c catalog =
     (if catalog = '''' then (Some EmptyCatalog, w, c)
      else (let c = c\<lparr>client := (client c)\<lparr>replicationID := catalog\<rparr>\<rparr>
            in if replicasManager c
               then (let w = (case embeddedReplica c of
                                None \<Rightarrow> w
                              | Some h \<Rightarrow> close_handle w h)
                     in case createConnection db_open w catalog of
                          (Inl e, w) \<Rightarrow> (Some e, w, c)
                        | (Inr h, w) \<Rightarrow> (None, w, c\<lparr>embeddedReplica := h\<rparr>))
               else (None, w, c)))"

text \<open>
  The specification's reading of a read statement: after trimming white space, the
  statement begins with one of the four keywords, letter case not counting. White
  space is listed character by character, it is removed from the front and then from
  the end, and two texts are the same but for letter case when their lower-case forms
  are equal.
\<close>

definition whitespace :: "char list" where
  "whitespace = [CHR 0x09, CHR 0x0A, CHR 0x0B, CHR 0x0C, CHR 0x0D, CHR 0x20, CHR 0xA0]"

definition strip_end :: "string \<Rightarrow> string" where
  "strip_end s = foldr (\<lambda>c rest. if rest = [] \<and> c \<in> set whitespace then [] else c # rest) s []"

definition trimmed_text :: "string \<Rightarrow> string" where
  "trimmed_text s = strip_end (dropWhile (\<lambda>c. c \<in> set whitespace) s)"

definition lower_unit :: "char \<Rightarrow> nat" where
  "lower_unit c =
     (let n = of_char c
      in if (65 \<le> n \<and> n \<le> 90) \<or> (192 \<le> n \<and> n \<le> 222 \<and> n \<noteq> 215) then n + 32 else n)"

definition same_ignoring_case :: "string \<Rightarrow> string \<Rightarrow> bool" where
  "same_ignoring_case a b = (map lower_unit a = map lower_unit b)"

definition spec_is_read :: "string \<Rightarrow> bool" where
  "spec_is_read statement =
     (\<exists>kw \<in> set [''SELECT'', ''PRAGMA'', ''EXPLAIN'', ''WITH''].
        same_ignoring_case (take (length kw) (trimmed_text statement)) kw)"


text \<open>Every unsettled call is the one whose promise is installed in \<open>responsePromise\<close>.\<close>

definition awaited :: "HAClient \<Rightarrow> bool" where
  "awaited c \<longleftrightarrow> (\<forall>i < length (promises c). promises c ! i = Pending \<longrightarrow> responsePromise c = Some i)"


section \<open>Lemmas on variable-length integers\<close>

lemma mask7_int: "(0x7f :: int) = mask 7"
  by (simp add: mask_eq_exp_minus_1)

lemma mask7_byte: "(0x7f :: byte) = mask 7"
  by (simp add: mask_eq_exp_minus_1)

lemma bit_0x80: "bit (0x80 :: byte) n \<longleftrightarrow> n = 7"
proof -
  have "bit (2 ^ 7 :: byte) n \<longleftrightarrow> n = 7"
    unfolding bit_exp_iff by auto
  then show ?thesis by simp
qed

lemma bit_0x80_int: "bit (0x80 :: int) n \<longleftrightarrow> n = 7"
proof -
  have "bit (2 ^ 7 :: int) n \<longleftrightarrow> n = 7"
    unfolding bit_exp_iff by auto
  then show ?thesis by simp
qed

lemma low7_or_rest: "(v AND 0x7f) OR push_bit 7 (drop_bit 7 v) = (v :: int)"
  unfolding mask7_int
proof (rule bit_eqI)
  fix n
  show "bit (v AND mask 7 OR push_bit 7 (drop_bit 7 v)) n = bit v n"
    by (cases "n < 7") (simp_all add: bit_simps not_less)
qed

lemma cont_byte_flag: "(word_of_int (v AND 0x7f) OR 0x80 :: byte) AND 0x80 \<noteq> 0"
proof
  assume "(word_of_int (v AND 0x7f) OR 0x80 :: byte) AND 0x80 = 0"
  then have "\<not> bit ((word_of_int (v AND 0x7f) OR 0x80 :: byte) AND 0x80) 7"
    by simp
  then show False
    by (simp add: bit_simps bit_0x80)
qed

lemma cont_byte_low: "uint ((word_of_int (v AND 0x7f) OR 0x80 :: byte) AND 0x7f) = v AND 0x7f"
  unfolding mask7_int mask7_byte
  by (rule bit_eqI) (auto simp add: bit_simps bit_0x80 bit_0x80_int)

lemma small_take_bit: "0 \<le> v \<Longrightarrow> v \<le> 0x7f \<Longrightarrow> take_bit 7 v = (v :: int)"
  by (simp add: take_bit_int_eq_self)

lemma last_byte_flag:
  assumes "0 \<le> v" "v \<le> 0x7f"
  shows "(word_of_int v :: byte) AND 0x80 = 0"
proof -
  have "(word_of_int (take_bit 7 v) :: byte) AND 0x80 = 0"
    by (rule bit_eqI) (auto simp add: bit_simps bit_0x80 bit_0x80_int)
  then show ?thesis
    using assms by (simp add: small_take_bit)
qed

lemma last_byte_low:
  assumes "0 \<le> v" "v \<le> 0x7f"
  shows "uint ((word_of_int v :: byte) AND 0x7f) = v"
proof -
  have "uint ((word_of_int (take_bit 7 v) :: byte) AND mask 7) = take_bit 7 v"
    by (rule bit_eqI) (auto simp add: bit_simps)
  then show ?thesis
    unfolding mask7_byte using assms by (simp add: small_take_bit)
qed

declare varint_bytes.simps [simp del]
declare writeVarint64_loop.simps [simp del]
declare decodeVarint_loop.simps [simp del]

lemma varint_bytes_big:
  "v > 0x7f \<Longrightarrow> varint_bytes v = (word_of_int (v AND 0x7f) OR 0x80) # varint_bytes (drop_bit 7 v)"
  by (subst varint_bytes.simps) simp

lemma varint_bytes_small: "\<not> v > 0x7f \<Longrightarrow> varint_bytes v = [word_of_int v]"
  by (subst varint_bytes.simps) simp

lemma writeVarint64_loop_room:
  "offset + length (varint_bytes v) \<le> length buf \<Longrightarrow>
   writeVarint64_loop buf offset v =
     (take offset buf @ varint_bytes v @ drop (offset + length (varint_bytes v)) buf,
      offset + length (varint_bytes v))"
proof (induction buf offset v rule: writeVarint64_loop.induct)
  case (1 buf offset v)
  show ?case
  proof (cases "v > 0x7f")
    case True
    let ?b = "word_of_int (v AND 0x7f) OR 0x80 :: byte"
    note vb = varint_bytes_big [OF True]
    have room: "offset + 1 + length (varint_bytes (drop_bit 7 v)) \<le> length (buf[offset := ?b])"
      using "1.prems" vb by simp
    have lt: "offset < length buf"
      using "1.prems" vb by simp
    have "writeVarint64_loop buf offset v =
          writeVarint64_loop (buf[offset := ?b]) (offset + 1) (drop_bit 7 v)"
      using True by (subst writeVarint64_loop.simps) simp
    also have "\<dots> = (take (offset + 1) (buf[offset := ?b]) @ varint_bytes (drop_bit 7 v) @
                  drop (offset + 1 + length (varint_bytes (drop_bit 7 v))) (buf[offset := ?b]),
                offset + 1 + length (varint_bytes (drop_bit 7 v)))"
      using "1.IH" [OF True room] .
    also have "take (offset + 1) (buf[offset := ?b]) = take offset buf @ [?b]"
      using lt by (simp add: take_Suc_conv_app_nth)
    finally show ?thesis
      using vb by simp
  next
    case False
    note vb = varint_bytes_small [OF False]
    have lt: "offset < length buf"
      using "1.prems" vb by simp
    have "writeVarint64_loop buf offset v = (buf[offset := word_of_int v], offset + 1)"
      using False by (subst writeVarint64_loop.simps) simp
    then show ?thesis
      using vb lt by (simp add: upd_conv_take_nth_drop)
  qed
qed

lemma decodeVarint_loop_bytes:
  "0 \<le> v \<Longrightarrow> drop (offset + bytesRead) buf = varint_bytes v @ rest \<Longrightarrow>
   decodeVarint_loop buf offset result shift bytesRead =
     (result OR push_bit shift v, bytesRead + length (varint_bytes v))"
proof (induction v arbitrary: result shift bytesRead rest rule: varint_bytes.induct)
  case (1 v)
  show ?case
  proof (cases "v > 0x7f")
    case True
    let ?b = "word_of_int (v AND 0x7f) OR 0x80 :: byte"
    note vb = varint_bytes_big [OF True]
    have d: "drop (offset + bytesRead) buf = ?b # (varint_bytes (drop_bit 7 v) @ rest)"
      using "1.prems"(2) vb by simp
    then have lt: "offset + bytesRead < length buf"
      by (metis drop_all list.distinct(1) not_less)
    have nth: "buf ! (offset + bytesRead) = ?b"
      using d by (rule nth_via_drop)
    have d': "drop (offset + (bytesRead + 1)) buf = varint_bytes (drop_bit 7 v) @ rest"
      using d by (metis Suc_eq_plus1 add_Suc_right drop_Suc list.sel(3) tl_drop)
    have nonneg: "0 \<le> drop_bit 7 v"
      using "1.prems"(1) by simp
    have "decodeVarint_loop buf offset result shift bytesRead =
          decodeVarint_loop buf offset (result OR push_bit shift (v AND 0x7f)) (shift + 7) (bytesRead + 1)"
      using lt nth by (subst decodeVarint_loop.simps) (simp add: Let_def cont_byte_flag cont_byte_low)
    also have "\<dots> = ((result OR push_bit shift (v AND 0x7f)) OR push_bit (shift + 7) (drop_bit 7 v),
                 bytesRead + 1 + length (varint_bytes (drop_bit 7 v)))"
      using "1.IH" [OF True nonneg d'] .
    also have "(result OR push_bit shift (v AND 0x7f)) OR push_bit (shift + 7) (drop_bit 7 v) =
               result OR push_bit shift ((v AND 0x7f) OR push_bit 7 (drop_bit 7 v))"
      by (simp add: or.assoc add.commute)
    finally show ?thesis
      using vb by (simp add: low7_or_rest)
  next
    case False
    note vb = varint_bytes_small [OF False]
    have small: "v \<le> 0x7f" using False by simp
    have d: "drop (offset + bytesRead) buf = word_of_int v # rest"
      using "1.prems"(2) vb by simp
    then have lt: "offset + bytesRead < length buf"
      by (metis drop_all list.distinct(1) not_less)
    have nth: "buf ! (offset + bytesRead) = word_of_int v"
      using d by (rule nth_via_drop)
    show ?thesis
      using lt nth vb
      by (subst decodeVarint_loop.simps)
         (simp add: Let_def last_byte_flag [OF "1.prems"(1) small] last_byte_low [OF "1.prems"(1) small])
  qed
qed

lemma varint_bytes_length:
  "0 < k \<Longrightarrow> v < 2 ^ (7 * k) \<Longrightarrow> length (varint_bytes v) \<le> k"
proof (induction k arbitrary: v)
  case 0
  then show ?case by simp
next
  case (Suc k)
  show ?case
  proof (cases "v > 0x7f")
    case True
    have "k \<noteq> 0"
      using True Suc.prems(2) by (cases "k = 0") auto
    moreover have "drop_bit 7 v < 2 ^ (7 * k)"
    proof -
      have "v < 128 * 2 ^ (7 * k)"
        using Suc.prems(2) by (simp add: power_add)
      then have "v div 128 < 2 ^ (7 * k)"
        by linarith
      then show ?thesis
        by (simp add: drop_bit_eq_div)
    qed
    ultimately have "length (varint_bytes (drop_bit 7 v)) \<le> k"
      using Suc.IH by simp
    then show ?thesis
      by (simp add: varint_bytes_big [OF True])
  next
    case False
    then show ?thesis by (simp add: varint_bytes_small)
  qed
qed

lemma asUintN64_range: "0 \<le> asUintN64 v \<and> asUintN64 v < 2 ^ 64"
  using take_bit_int_less_exp [of 64 v] by (simp add: asUintN64_def)

lemma writeVarint64_decodeVarint:
  assumes u: "0 \<le> u" "u < 2 ^ 70" and room: "offset + 10 \<le> length buf"
  shows "decodeVarint (fst (writeVarint64_loop buf offset u)) offset =
           (u, snd (writeVarint64_loop buf offset u) - offset)"
proof -
  let ?n = "length (varint_bytes u)"
  have n: "?n \<le> 10"
    using varint_bytes_length [of 10 u] u by simp
  then have fits: "offset + ?n \<le> length buf"
    using room by simp
  note w = writeVarint64_loop_room [OF fits]
  have "drop (offset + 0) (fst (writeVarint64_loop buf offset u)) =
        varint_bytes u @ drop (offset + ?n) buf"
    using fits by (simp add: w)
  from decodeVarint_loop_bytes [OF u(1) this, of 0 0]
  show ?thesis
    by (simp add: decodeVarint_def w)
qed

text \<open>
  C6. Writing a 64-bit integer with \<open>writeVarint64\<close> into a Buffer with room for ten
  bytes and reading it back with \<open>decodeVarint\<close> at the same offset gives the value
  reinterpreted as unsigned (the value itself when it is not negative), and reads as
  many bytes as were written. This covers 0, 127, 128, \<open>2 ^ 63 - 1\<close> and every
  negative 64-bit value.
\<close>

theorem varint64_roundtrip:
  assumes "- (2 ^ 63) \<le> v" and "v < 2 ^ 64" and "offset + 10 \<le> length buf"
  shows "decodeVarint (fst (writeVarint64 buf offset v)) offset =
           (if v < 0 then asUintN64 v else v, snd (writeVarint64 buf offset v) - offset)"
proof -
  let ?u = "if v < 0 then asUintN64 v else v"
  have "0 \<le> ?u" and "?u < 2 ^ 64"
    using assms(2) asUintN64_range [of v] by auto
  then have "0 \<le> ?u" and "?u < 2 ^ 70"
    by simp_all
  from writeVarint64_decodeVarint [OF this assms(3)]
  show ?thesis
    by (simp add: writeVarint64_def)
qed

theorem varint64_roundtrip_witness:
  "fst (decodeVarint (fst (writeVarint64 (alloc 11) 1 0)) 1) = 0
   \<and> fst (decodeVarint (fst (writeVarint64 (alloc 11) 1 127)) 1) = 127
   \<and> fst (decodeVarint (fst (writeVarint64 (alloc 11) 1 128)) 1) = 128
   \<and> fst (decodeVarint (fst (writeVarint64 (alloc 11) 1 (2 ^ 63 - 1))) 1) = 2 ^ 63 - 1
   \<and> fst (decodeVarint (fst (writeVarint64 (alloc 11) 1 (- 1))) 1) = 2 ^ 64 - 1
   \<and> fst (decodeVarint (fst (writeVarint64 (alloc 11) 1 (- (2 ^ 63)))) 1) = 2 ^ 63"
  using varint64_roundtrip [of 0 1 "alloc 11"]
        varint64_roundtrip [of 127 1 "alloc 11"]
        varint64_roundtrip [of 128 1 "alloc 11"]
        varint64_roundtrip [of "2 ^ 63 - 1" 1 "alloc 11"]
        varint64_roundtrip [of "- 1" 1 "alloc 11"]
        varint64_roundtrip [of "- (2 ^ 63)" 1 "alloc 11"]
  by (simp add: alloc_def asUintN64_def mask_eq_exp_minus_1)

section \<open>Decoding envelopes\<close>

lemma bitlen_0: "bitlen 0 = 0"
  by simp

lemma Number_of_bigint_0: "Number_of_bigint 0 = Integral 0"
  by (simp add: Number_of_bigint_def round_to_double_def)

lemma decodeVarint_short: "length p < 2 \<Longrightarrow> decodeVarint p 1 = (0, 0)"
  unfolding decodeVarint_def by (subst decodeVarint_loop.simps) simp

lemma parseTimestampValue_short:
  assumes "length p < 2"
  shows "parseTimestampValue p = Date (Some 0)"
proof -
  note d = decodeVarint_short [OF assms]
  show ?thesis
    unfolding parseTimestampValue_def d
    using assms by (simp add: Number_of_bigint_0 new_Date_def TimeClip_def)
qed

text \<open>
  C7. For every supported decode tag, an envelope whose payload is empty or shorter than
  a well-formed payload of that tag decodes without an error to the zero value of the
  tag: the empty string, the number 0, \<open>false\<close>, the timestamp 0, the empty byte
  sequence (and \<open>null\<close> for \<open>Empty\<close>).
\<close>

theorem fromAny_undersized:
  assumes "tag \<in> set supported_tags" and "length p < min_payload tag"
  shows "fromAny utf8_decode (envelope (TYPE_URL_PREFIX @ tag) p) = Inr (zero_value tag)"
proof -
  have "tag = ''Empty'' \<or> tag = ''StringValue'' \<or> tag = ''DoubleValue''
    \<or> tag = ''FloatValue'' \<or> tag = ''Int64Value'' \<or> tag = ''UInt64Value''
    \<or> tag = ''Int32Value'' \<or> tag = ''UInt32Value'' \<or> tag = ''BoolValue''
    \<or> tag = ''Timestamp'' \<or> tag = ''BytesValue''"
    using assms(1) unfolding supported_tags_def by simp
  then show ?thesis
  proof (elim disjE)
    assume "tag = ''Empty''"
    then show ?thesis
      using assms(2)
      by (simp add: fromAny_def envelope_def zero_value_def min_payload_def )
  next
    assume "tag = ''StringValue''"
    then show ?thesis
      using assms(2)
      by (simp add: fromAny_def envelope_def zero_value_def min_payload_def parseStringValue_def)
  next
    assume "tag = ''DoubleValue''"
    then show ?thesis
      using assms(2)
      by (simp add: fromAny_def envelope_def zero_value_def min_payload_def parseDoubleValue_def)
  next
    assume "tag = ''FloatValue''"
    then show ?thesis
      using assms(2)
      by (simp add: fromAny_def envelope_def zero_value_def min_payload_def parseFloatValue_def)
  next
    assume "tag = ''Int64Value''"
    then show ?thesis
      using assms(2)
      by (simp add: fromAny_def envelope_def zero_value_def min_payload_def parseVarintValue_def)
  next
    assume "tag = ''UInt64Value''"
    then show ?thesis
      using assms(2)
      by (simp add: fromAny_def envelope_def zero_value_def min_payload_def parseVarintValue_def)
  next
    assume "tag = ''Int32Value''"
    then show ?thesis
      using assms(2)
      by (simp add: fromAny_def envelope_def zero_value_def min_payload_def parseVarint32Value_def)
  next
    assume "tag = ''UInt32Value''"
    then show ?thesis
      using assms(2)
      by (simp add: fromAny_def envelope_def zero_value_def min_payload_def parseVarint32Value_def)
  next
    assume "tag = ''BoolValue''"
    then show ?thesis
      using assms(2)
      by (simp add: fromAny_def envelope_def zero_value_def min_payload_def parseBoolValue_def)
  next
    assume "tag = ''Timestamp''"
    then show ?thesis
      using assms(2)
      by (simp add: fromAny_def envelope_def zero_value_def min_payload_def parseTimestampValue_short)
  next
    assume "tag = ''BytesValue''"
    then show ?thesis
      using assms(2)
      by (simp add: fromAny_def envelope_def zero_value_def min_payload_def parseBytesValue_def alloc_def)
  qed
qed

theorem fromAny_undersized_witness:
  "fromAny ascii_decode (envelope (TYPE_URL_PREFIX @ ''Timestamp'') [0x08]) = Inr (Date (Some 0))
   \<and> fromAny ascii_decode (envelope (TYPE_URL_PREFIX @ ''DoubleValue'') [0x09, 1, 2, 3])
       = Inr (Num (Integral 0))
   \<and> fromAny ascii_decode (envelope (TYPE_URL_PREFIX @ ''StringValue'') []) = Inr (Str '''')"
  using fromAny_undersized [of "''Timestamp''" "[0x08]" ascii_decode]
        fromAny_undersized [of "''DoubleValue''" "[0x09, 1, 2, 3]" ascii_decode]
        fromAny_undersized [of "''StringValue''" "[]" ascii_decode]
  by (simp add: supported_tags_def min_payload_def zero_value_def)

text \<open>
  C8, as the code has it. A tag that is not empty and not one of the supported type
  URLs makes \<open>fromAny\<close> fail with \<open>UnsupportedType\<close> naming the tag. An absent envelope
  and an absent or empty tag are answered with \<open>null\<close> before the dispatch.
\<close>

theorem fromAny_unsupported:
  "(url \<noteq> '''' \<and> url \<notin> set (map (\<lambda>tag. TYPE_URL_PREFIX @ tag) supported_tags)
      \<longrightarrow> fromAny utf8_decode (envelope url p) = Inl (UnsupportedType url))
   \<and> fromAny utf8_decode (envelope '''' p) = Inr Null
   \<and> fromAny utf8_decode (Some \<lparr>type_url = None, any_value = p\<rparr>) = Inr Null
   \<and> fromAny utf8_decode None = Inr Null"
  by (simp add: fromAny_def envelope_def supported_tags_def)

theorem fromAny_unsupported_witness:
  "fromAny ascii_decode (envelope ''StringValue'' [0x0a, 0x00]) = Inl (UnsupportedType ''StringValue'')"
  using fromAny_unsupported [of "''StringValue''" ascii_decode "[0x0a, 0x00]"]
  by (simp add: supported_tags_def TYPE_URL_PREFIX_def)

text \<open>
  The empty tag is not in the supported set, and decoding it does not fail.
\<close>

theorem fromAny_empty_tag_counterexample:
  "'''' \<notin> set (map (\<lambda>tag. TYPE_URL_PREFIX @ tag) supported_tags)
   \<and> fromAny ascii_decode (envelope '''' []) = Inr Null
   \<and> fromAny ascii_decode (envelope '''' []) \<noteq> Inl (UnsupportedType '''')"
  by (simp add: fromAny_def envelope_def supported_tags_def TYPE_URL_PREFIX_def)

section \<open>Round trips through the codec\<close>

declare encodeVarint.simps [simp del]
declare writeVarint32.simps [simp del]
declare bitlen.simps [simp del]






























text \<open>
  The number branch of \<open>toAny\<close> writes into \<open>Buffer.alloc(9)\<close>, the \<open>bigint\<close> branch into
  \<open>Buffer.alloc(11)\<close>. A varint of more than eight bytes does not fit the nine: the
  number \<open>2 ^ 56\<close> loses its ninth byte and is decoded as 0, while the same value as a
  \<open>bigint\<close> is decoded as \<open>2 ^ 56\<close>.
\<close>

lemma number_branch_buffer_short:
  "roundtrip ascii_encode ascii_decode (Num (Integral (2 ^ 56))) = Inr (Num (Integral 0))
   \<and> roundtrip ascii_encode ascii_decode (BigInt (2 ^ 56)) = Inr (Num (Integral (2 ^ 56)))"
  by code_simp

section \<open>Routing and catalog switch\<close>

text \<open>
  C9. \<open>setCatalog\<close> with the empty name throws the empty-catalog error and leaves the
  store of handles, the registry and every field of the connection (the client with its
  target catalog, the replica handle, the flags) as they were.
\<close>

theorem setCatalog_empty:
  "setCatalog db_open w c '''' = (Some EmptyCatalog, w, c)"
  by (simp add: setCatalog_def)

lemma whitespace_is_space: "c \<in> set whitespace \<longleftrightarrow> is_space c"
proof
  assume "c \<in> set whitespace"
  then show "is_space c"
    by (auto simp add: whitespace_def is_space_def)
next
  assume "is_space c"
  then have "(of_char c :: nat) \<in> of_char ` set whitespace"
    by (simp add: is_space_def whitespace_def)
  then obtain d where d: "d \<in> set whitespace" and "(of_char c :: nat) = of_char d"
    by auto
  then have "c = d"
    by (simp add: of_char_eq_iff)
  then show "c \<in> set whitespace"
    using d by simp
qed

lemma strip_end_Cons:
  "strip_end (c # s) = (if strip_end s = [] \<and> c \<in> set whitespace then [] else c # strip_end s)"
  by (simp add: strip_end_def)

lemma strip_end_Nil_iff: "strip_end s = [] \<longleftrightarrow> (\<forall>c \<in> set s. c \<in> set whitespace)"
  by (induction s) (auto simp add: strip_end_Cons, simp add: strip_end_def)

lemma strip_end_rev: "strip_end s = rev (dropWhile (\<lambda>c. c \<in> set whitespace) (rev s))"
proof (induction s)
  case Nil
  then show ?case by (simp add: strip_end_def)
next
  case (Cons c s)
  show ?case
  proof (cases "\<forall>x \<in> set s. x \<in> set whitespace")
    case True
    then have "strip_end s = []"
      by (simp add: strip_end_Nil_iff)
    then show ?thesis
      using True by (simp add: strip_end_Cons dropWhile_append)
  next
    case False
    then have "strip_end s \<noteq> []"
      by (simp add: strip_end_Nil_iff)
    then show ?thesis
      using False Cons.IH by (auto simp add: strip_end_Cons dropWhile_append)
  qed
qed

lemma trimmed_text_trim: "trimmed_text s = trim s"
proof -
  have "(\<lambda>c. c \<in> set whitespace) = is_space"
    by (rule ext) (rule whitespace_is_space)
  then show ?thesis
    by (simp add: trimmed_text_def trim_def strip_end_rev)
qed

lemma upper_units_sharp: "(of_char x :: nat) = 223 \<Longrightarrow> upper_units x = [83, 83] \<and> lower_unit x = 223"
  by (simp add: upper_units_def lower_unit_def)

lemma upper_units_single: "(of_char x :: nat) \<noteq> 223 \<Longrightarrow> \<exists>y. upper_units x = [y]"
  by (simp add: upper_units_def Let_def)

lemma upper_lower_unit:
  assumes "65 \<le> (of_char k :: nat)" and "(of_char k :: nat) \<le> 90"
    and "(of_char x :: nat) \<noteq> 223"
  shows "upper_units x = [of_char k] \<longleftrightarrow> lower_unit x = lower_unit k"
proof -
  have "(of_char x :: nat) < 256"
    by (rule nat_of_char_less_256)
  then show ?thesis
    using assms by (auto simp add: upper_units_def lower_unit_def Let_def)
qed

lemma lower_unit_capital:
  "65 \<le> (of_char k :: nat) \<Longrightarrow> (of_char k :: nat) \<le> 90 \<Longrightarrow> lower_unit k = of_char k + 32"
  by (simp add: lower_unit_def)

lemma prefix_no_S:
  assumes "\<forall>k \<in> set kw. 65 \<le> (of_char k :: nat) \<and> (of_char k :: nat) \<le> 90 \<and> (of_char k :: nat) \<noteq> 83"
  shows "take (length kw) (concat (map upper_units t)) = map of_char kw
           \<longleftrightarrow> map lower_unit (take (length kw) t) = map lower_unit kw"
  using assms
proof (induction kw arbitrary: t)
  case Nil
  then show ?case by simp
next
  case (Cons k kw)
  have k: "65 \<le> (of_char k :: nat)" "(of_char k :: nat) \<le> 90" "(of_char k :: nat) \<noteq> 83"
    using Cons.prems by simp_all
  have rest: "\<forall>k \<in> set kw. 65 \<le> (of_char k :: nat) \<and> (of_char k :: nat) \<le> 90 \<and> (of_char k :: nat) \<noteq> 83"
    using Cons.prems by simp
  show ?case
  proof (cases t)
    case Nil
    then show ?thesis by simp
  next
    case (Cons x t')
    show ?thesis
    proof (cases "(of_char x :: nat) = 223")
      case True
      then show ?thesis
        using k upper_units_sharp [OF True] lower_unit_capital [OF k(1,2)]
        by (simp add: Cons)
    next
      case False
      then obtain y where y: "upper_units x = [y]"
        using upper_units_single by blast
      have "y = of_char k \<longleftrightarrow> lower_unit x = lower_unit k"
        using upper_lower_unit [OF k(1,2) False] y by simp
      then show ?thesis
        using Cons.IH [OF rest, of t'] y by (simp add: Cons)
    qed
  qed
qed

lemma prefix_S:
  assumes "(of_char s :: nat) = 83" and "kw \<noteq> []"
    and "\<forall>k \<in> set kw. 65 \<le> (of_char k :: nat) \<and> (of_char k :: nat) \<le> 90 \<and> (of_char k :: nat) \<noteq> 83"
  shows "take (length (s # kw)) (concat (map upper_units t)) = map of_char (s # kw)
           \<longleftrightarrow> map lower_unit (take (length (s # kw)) t) = map lower_unit (s # kw)"
proof (cases t)
  case Nil
  then show ?thesis by simp
next
  case (Cons x t')
  have s: "65 \<le> (of_char s :: nat)" "(of_char s :: nat) \<le> 90"
    using assms(1) by simp_all
  show ?thesis
  proof (cases "(of_char x :: nat) = 223")
    case True
    obtain k kw' where kw: "kw = k # kw'"
      using assms(2) by (cases kw) auto
    have "(of_char k :: nat) \<noteq> 83"
      using assms(3) kw by simp
    then show ?thesis
      using upper_units_sharp [OF True] lower_unit_capital [OF s] assms(1)
      by (simp add: Cons kw)
  next
    case False
    then obtain y where y: "upper_units x = [y]"
      using upper_units_single by blast
    have "y = of_char s \<longleftrightarrow> lower_unit x = lower_unit s"
      using upper_lower_unit [OF s False] y by simp
    then show ?thesis
      using prefix_no_S [OF assms(3), of t'] y by (simp add: Cons)
  qed
qed

lemma startsWith_keywords:
  "startsWith (toUpperCase t) ''SELECT'' = same_ignoring_case (take (length ''SELECT'') t) ''SELECT''"
  "startsWith (toUpperCase t) ''PRAGMA'' = same_ignoring_case (take (length ''PRAGMA'') t) ''PRAGMA''"
  "startsWith (toUpperCase t) ''EXPLAIN'' = same_ignoring_case (take (length ''EXPLAIN'') t) ''EXPLAIN''"
  "startsWith (toUpperCase t) ''WITH'' = same_ignoring_case (take (length ''WITH'') t) ''WITH''"
  unfolding startsWith_def toUpperCase_def same_ignoring_case_def
  using prefix_S [of "CHR ''S''" "''ELECT''" t] prefix_no_S [of "''PRAGMA''" t]
    prefix_no_S [of "''EXPLAIN''" t] prefix_no_S [of "''WITH''" t]
  by simp_all

lemma isSelectQuery_spec: "isSelectQuery statement = spec_is_read statement"
  by (simp add: isSelectQuery_def spec_is_read_def startsWith_keywords trimmed_text_trim
      del: length_Cons list.size)
text \<open>
  The statements the specification lists, and one behind a no-break space.
\<close>

lemma isSelectQuery_examples:
  "isSelectQuery ''  select * from t'' \<and> isSelectQuery ''WITH x AS (...) SELECT 1''
   \<and> isSelectQuery ''PRAGMA table_info(t)'' \<and> isSelectQuery ''EXPLAIN QUERY PLAN ...''
   \<and> \<not> isSelectQuery ''INSERT INTO t VALUES (1)'' \<and> \<not> isSelectQuery ''UPDATE t SET x=1''
   \<and> isSelectQuery (CHR 0xA0 # ''SELECT 1'')"
  by code_simp


lemma isReplicaUpdated_iff:
  "isReplicaUpdated rs dbName seq \<longleftrightarrow>
     (\<exists>r. getReplica rs dbName = Some r \<and> seq \<le> replica_txseq r)"
  by (simp add: isReplicaUpdated_def split: option.splits)

text \<open>
  C1, as the code has it. \<open>query\<close> runs the statement on the replica handle \<open>h\<close> exactly
  when the connection holds that handle and a reference to the registry, the statement
  is a read, the registry resolves a replica for the client's catalog, and that
  replica's tracked sequence number is at least the client's. In every other case the
  statement goes to the client's \<open>executeQuery\<close>.
\<close>

theorem query_route:
  "(query w c statement ps = ExecuteOnReplica h statement ps
      \<longleftrightarrow> embeddedReplica c = Some h \<and> replicasManager c \<and> spec_is_read statement
          \<and> (\<exists>r. getReplica (registry w) (replicationID (client c)) = Some r
                 \<and> txseq (client c) \<le> replica_txseq r))
   \<and> (query w c statement ps = ClientExecuteQuery statement ps
       \<or> (\<exists>h'. query w c statement ps = ExecuteOnReplica h' statement ps))"
  by (auto simp add: query_def isSelectQuery_spec isReplicaUpdated_iff split: option.splits)

theorem query_route_witness:
  "query \<lparr>registry = [(''app'', \<lparr>db = (), replica_txseq = 10, dsn = ''replicas/app''\<rparr>)],
          handles = [\<lparr>db_file = ''replicas/app'', readonly = True, is_open = True\<rparr>]\<rparr>
     \<lparr>client = (new_HAClient ''app'' 30)\<lparr>txseq := 10\<rparr>, embeddedReplica = Some 0,
      replicasManager = True, closed = False, autoCommit = True, readOnly = False\<rparr>
     ''SELECT * FROM t'' NoParameters
   = ExecuteOnReplica 0 ''SELECT * FROM t'' NoParameters"
proof -
  have "spec_is_read ''SELECT * FROM t''"
    by code_simp
  then show ?thesis
    using query_route [of "\<lparr>registry = [(''app'', \<lparr>db = (), replica_txseq = 10, dsn = ''replicas/app''\<rparr>)],
          handles = [\<lparr>db_file = ''replicas/app'', readonly = True, is_open = True\<rparr>]\<rparr>"
       "\<lparr>client = (new_HAClient ''app'' 30)\<lparr>txseq := 10\<rparr>, embeddedReplica = Some 0,
      replicasManager = True, closed = False, autoCommit = True, readOnly = False\<rparr>"
      "''SELECT * FROM t''" NoParameters 0]
    by (simp add: getReplica_def new_HAClient_def)
qed

text \<open>
  A connection made with replication configured while the registry holds no replica for
  its catalog has a reference to the registry and no handle. Once the replica is
  registered it is resolvable and as fresh as the client asks, the statement is a read,
  and the statement still goes to the remote client.
\<close>

theorem query_route_counterexample:
  "new_HAConnection (\<lambda>f. True) \<lparr>registry = [], handles = []\<rparr>
       \<lparr>url_path = ''app'', timeout_option = None, embeddedReplicasDir = Some ''replicas'',
        replicationUrl = Some ''nats://localhost:4222''\<rparr>
     = (Inr \<lparr>client = new_HAClient ''app'' 30, embeddedReplica = None,
             replicasManager = True, closed = False, autoCommit = True, readOnly = False\<rparr>,
        \<lparr>registry = ([] :: unit replicas), handles = []\<rparr>)
   \<and> spec_is_read ''SELECT 1''
   \<and> getReplica [(''app'', \<lparr>db = (), replica_txseq = 0, dsn = ''replicas/app''\<rparr>)] ''app''
       = Some \<lparr>db = (), replica_txseq = 0, dsn = ''replicas/app''\<rparr>
   \<and> txseq (new_HAClient ''app'' 30) \<le> 0
   \<and> query \<lparr>registry = [(''app'', \<lparr>db = (), replica_txseq = 0, dsn = ''replicas/app''\<rparr>)],
            handles = []\<rparr>
       \<lparr>client = new_HAClient ''app'' 30, embeddedReplica = None,
        replicasManager = True, closed = False, autoCommit = True, readOnly = False\<rparr>
       ''SELECT 1'' NoParameters
     = ClientExecuteQuery ''SELECT 1'' NoParameters"
  by code_simp

section \<open>Sequence numbers\<close>

lemma on_data_txseq:
  "txseq (on_data c r) = (if 0 < resp_txseq r then resp_txseq r else txseq c)"
  by (simp add: on_data_def Let_def split: option.splits)

lemma txseq_trace_sorted:
  "sorted (txseq c # filter (\<lambda>t. 0 < t) (map resp_txseq rs)) \<Longrightarrow> sorted (txseq c # txseq_trace c rs)"
proof (induction rs arbitrary: c)
  case Nil
  then show ?case by simp
next
  case (Cons r rs)
  let ?c' = "on_data c r"
  have step: "txseq c \<le> txseq ?c'"
    using Cons.prems by (cases "0 < resp_txseq r") (auto simp add: on_data_txseq)
  have "sorted (txseq ?c' # filter (\<lambda>t. 0 < t) (map resp_txseq rs))"
    using Cons.prems by (cases "0 < resp_txseq r") (auto simp add: on_data_txseq)
  then have ih: "sorted (txseq ?c' # txseq_trace ?c' rs)"
    by (rule Cons.IH)
  have "sorted (txseq c # txseq ?c' # txseq_trace ?c' rs)"
    using step ih by (simp only: sorted2 simp_thms)
  then show ?case
    by (simp only: txseq_trace.simps)
qed

text \<open>
  C2, as the code has it. The data handler overwrites the tracked sequence number with
  the response's whenever that is positive, and leaves it alone otherwise; it compares
  nothing. Over a list of responses the tracked value is therefore non-decreasing when
  the positive numbers the responses carry are themselves non-decreasing and start at or
  above the tracked value.
\<close>

theorem txseq_overwritten:
  "txseq (on_data c r) = (if 0 < resp_txseq r then resp_txseq r else txseq c)
   \<and> (sorted (txseq c # filter (\<lambda>t. 0 < t) (map resp_txseq rs))
       \<longrightarrow> sorted (txseq c # txseq_trace c rs))"
  by (intro conjI impI on_data_txseq txseq_trace_sorted)

theorem txseq_overwritten_witness:
  "sorted (txseq (new_HAClient ''app'' 30)
      # txseq_trace (new_HAClient ''app'' 30)
          [\<lparr>result_set = None, rows_affected = 0, resp_txseq = 5, resp_error = ''''\<rparr>,
           \<lparr>result_set = None, rows_affected = 0, resp_txseq = 0, resp_error = ''''\<rparr>,
           \<lparr>result_set = None, rows_affected = 0, resp_txseq = 7, resp_error = ''''\<rparr>])"
proof -
  let ?rs = "[\<lparr>result_set = None, rows_affected = 0, resp_txseq = 5, resp_error = ''''\<rparr>,
           \<lparr>result_set = None, rows_affected = 0, resp_txseq = 0, resp_error = ''''\<rparr>,
           \<lparr>result_set = None, rows_affected = 0, resp_txseq = 7, resp_error = ''''\<rparr>]"
  have h: "sorted (txseq (new_HAClient ''app'' 30) # filter (\<lambda>t. 0 < t) (map resp_txseq ?rs))"
    by (simp add: new_HAClient_def)
  from txseq_overwritten [of "new_HAClient ''app'' 30" "hd ?rs" ?rs] h
  show ?thesis
    by blast
qed

text \<open>A response with sequence number 3 after one with 5 lowers the tracked value to 3.\<close>

theorem txseq_regress_counterexample:
  "txseq_trace (new_HAClient ''app'' 30)
     [\<lparr>result_set = None, rows_affected = 0, resp_txseq = 5, resp_error = ''''\<rparr>,
      \<lparr>result_set = None, rows_affected = 0, resp_txseq = 3, resp_error = ''''\<rparr>]
   = [5, 3]"
  by (simp add: on_data_def new_HAClient_def)

lemma map_of_set_replica:
  "map_of rs k = Some r \<Longrightarrow> map_of (set_replica rs k r') k = Some r'"
  by (induction rs) (auto simp add: set_replica_def split: if_splits)

text \<open>
  C3, as the code has it. When the replica is registered, the payload parses and the
  statement (if any) executes, a message that carries a non-zero sequence number sets
  the replica's tracked number to it, whatever the number was; in every other case the
  tracked number stays. So the tracked number does not go down if the message's number
  is at least the current one.
\<close>

theorem replica_txseq_assigned:
  assumes "map_of rs k = Some r"
  shows "tracked (snd (applyReplicationMessage db_exec rs k data)) k =
           Some (case data of
                   None \<Rightarrow> replica_txseq r
                 | Some m \<Rightarrow>
                     if (case msg_sql m of
                           None \<Rightarrow> False
                         | Some st \<Rightarrow> st \<noteq> '''' \<and> isl (db_exec (db r) st))
                     then replica_txseq r
                     else (case msg_txseq m of
                             None \<Rightarrow> replica_txseq r
                           | Some seq \<Rightarrow> if seq = 0 then replica_txseq r else seq))"
  using assms map_of_set_replica [OF assms]
  by (auto simp add: applyReplicationMessage_def tracked_def Let_def
      split: option.splits sum.splits)

theorem replica_txseq_assigned_witness:
  "tracked (snd (applyReplicationMessage (\<lambda>d st. Inr (d @ [st]))
       [(''app'', \<lparr>db = [], replica_txseq = 5, dsn = ''replicas/app''\<rparr>)] ''app''
       (Some \<lparr>msg_sql = Some ''INSERT INTO t VALUES (1)'', msg_txseq = Some 6\<rparr>))) ''app''
   = Some 6"
  using replica_txseq_assigned [of "[(''app'', \<lparr>db = [], replica_txseq = 5, dsn = ''replicas/app''\<rparr>)]"
      "''app''" "\<lparr>db = [], replica_txseq = 5, dsn = ''replicas/app''\<rparr>" "\<lambda>d st. Inr (d @ [st])"
      "Some \<lparr>msg_sql = Some ''INSERT INTO t VALUES (1)'', msg_txseq = Some 6\<rparr>"]
  by simp

text \<open>Sequence numbers 5 then 3 at a replica that stands at 5 leave it at 3.\<close>

theorem replica_txseq_regress_counterexample:
  "tracked (apply_all (\<lambda>d st. Inr (d @ [st]))
       [(''app'', \<lparr>db = [], replica_txseq = 5, dsn = ''replicas/app''\<rparr>)] ''app''
       [Some \<lparr>msg_sql = Some ''UPDATE t SET x = 1'', msg_txseq = Some 5\<rparr>,
        Some \<lparr>msg_sql = Some ''UPDATE t SET x = 2'', msg_txseq = Some 3\<rparr>]) ''app''
   = Some 3"
  by (simp add: applyReplicationMessage_def tracked_def set_replica_def)

section \<open>Parameters of a call\<close>

lemma encode_params_map:
  "encode_params utf8 es n = Inr ps \<Longrightarrow>
   map (\<lambda>p. (name p, ordinal p)) ps =
     map (\<lambda>(i, (k, v)). case k of KNumber x \<Rightarrow> (None, x) | KString s \<Rightarrow> (Some s, Integral (int i)))
       (enumerate n es)"
proof (induction es arbitrary: n ps)
  case Nil
  then show ?case by simp
next
  case (Cons e es)
  obtain k v where e: "e = (k, v)"
    by (cases e)
  from Cons.prems obtain a ps' where
    a: "toAny utf8 v = Inr a" and ps': "encode_params utf8 es (n + 1) = Inr ps'"
    and ps: "ps = \<lparr>name = (case k of KNumber x \<Rightarrow> None | KString s \<Rightarrow> Some s),
                   ordinal = (case k of KNumber x \<Rightarrow> x | KString s \<Rightarrow> Integral (int n)),
                   param_value = a\<rparr> # ps'"
    unfolding e by (auto split: sum.splits)
  from Cons.IH [OF ps'] show ?case
    unfolding e ps by (cases k) simp_all
qed

lemma encode_params_object:
  "encode_params utf8 (map (\<lambda>(k, v). (KString k, v)) xs) n = Inr ps \<Longrightarrow>
   map (\<lambda>p. (name p, ordinal p)) ps =
     map (\<lambda>(i, (k, v)). (Some k, Integral (int i))) (enumerate n xs)"
proof (induction xs arbitrary: n ps)
  case Nil
  then show ?case by simp
next
  case (Cons e xs)
  obtain k v where e: "e = (k, v)"
    by (cases e)
  from Cons.prems obtain a ps' where
    ps': "encode_params utf8 (map (\<lambda>(k, v). (KString k, v)) xs) (n + 1) = Inr ps'"
    and ps: "ps = \<lparr>name = Some k, ordinal = Integral (int n), param_value = a\<rparr> # ps'"
    unfolding e by (auto split: sum.splits)
  from Cons.IH [OF ps'] show ?case
    unfolding e ps by simp
qed

lemma Object_entries_no_index:
  "\<forall>k \<in> fst ` set props. array_index k = None \<Longrightarrow> Object_entries props = props"
proof -
  assume a: "\<forall>k \<in> fst ` set props. array_index k = None"
  have "List.map_filter (\<lambda>(k, v). map_option (\<lambda>n. (n, (k, v))) (array_index k)) props = []"
    using a by (induction props) auto
  moreover have "filter (\<lambda>(k, v). array_index k = None) props = props"
    using a by (induction props) auto
  ultimately show ?thesis
    by (simp add: Object_entries_def)
qed

text \<open>
  C10, as the code has it. Every entry of a plain object is sent as a named parameter:
  its name is the key (also a key that looks like a number, such as \<open>"1"\<close>) and its
  ordinal is its position, from 1, in the order of \<open>Object.entries\<close>. That order is the
  creation order when no key is an array index; keys that are array indices come first,
  in ascending numeric order. An entry of a \<open>Map\<close> is sent without a name exactly when
  its key is a number, and then that number is its ordinal; an entry with a string key
  is named and has its position in the \<open>Map\<close>, from 1, as its ordinal.
\<close>

theorem params_named:
  "(build_params utf8 (ObjectParameters props) = Inr ps \<longrightarrow>
      map (\<lambda>p. (name p, ordinal p)) ps =
        map (\<lambda>(i, (k, v)). (Some k, Integral (int i))) (enumerate 1 (Object_entries props)))
   \<and> ((\<forall>k \<in> fst ` set props. array_index k = None) \<longrightarrow> Object_entries props = props)
   \<and> (build_params utf8 (MapParameters es) = Inr qs \<longrightarrow>
      map (\<lambda>p. (name p, ordinal p)) qs =
        map (\<lambda>(i, (k, v)). case k of KNumber x \<Rightarrow> (None, x)
                              | KString s \<Rightarrow> (Some s, Integral (int i)))
          (enumerate 1 es))"
  using encode_params_object [of utf8 "Object_entries props" 1 ps]
    encode_params_map [of utf8 es 1 qs] Object_entries_no_index [of props]
  by (simp add: build_params_def entries_def)

theorem params_named_witness:
  "names_ordinals (build_params ascii_encode
       (ObjectParameters [(''name'', Str ''Bob''), (''1'', Num (Integral 7))]))
     = [(Some ''1'', Integral 1), (Some ''name'', Integral 2)]
   \<and> Object_entries [(''name'', Str ''Bob''), (''email'', Str ''b@example.com'')]
     = [(''name'', Str ''Bob''), (''email'', Str ''b@example.com'')]
   \<and> names_ordinals (build_params ascii_encode
       (MapParameters [(KNumber (Integral 2), Str ''x''), (KString ''n'', Bool True)]))
     = [(None, Integral 2), (Some ''n'', Integral 2)]"
proof -
  let ?obj = "[(''name'', Str ''Bob''), (''1'', Num (Integral 7))]"
  let ?plain = "[(''name'', Str ''Bob''), (''email'', Str ''b@example.com'')]"
  let ?m = "[(KNumber (Integral 2), Str ''x''), (KString ''n'', Bool True)]"
  have "\<not> isl (build_params ascii_encode (ObjectParameters ?obj))"
    by code_simp
  then obtain ps where p: "build_params ascii_encode (ObjectParameters ?obj) = Inr ps"
    by (cases "build_params ascii_encode (ObjectParameters ?obj)") auto
  have "\<not> isl (build_params ascii_encode (MapParameters ?m))"
    by code_simp
  then obtain qs where q: "build_params ascii_encode (MapParameters ?m) = Inr qs"
    by (cases "build_params ascii_encode (MapParameters ?m)") auto
  have oe: "Object_entries ?obj = [(''1'', Num (Integral 7)), (''name'', Str ''Bob'')]"
    by code_simp
  have ai: "\<forall>k \<in> fst ` set ?plain. array_index k = None"
    by code_simp
  from params_named [of ascii_encode ?obj ps ?m qs] p q
  have 1: "names_ordinals (build_params ascii_encode (ObjectParameters ?obj))
            = [(Some ''1'', Integral 1), (Some ''name'', Integral 2)]"
    and 3: "names_ordinals (build_params ascii_encode (MapParameters ?m))
            = [(None, Integral 2), (Some ''n'', Integral 2)]"
    by (simp_all add: names_ordinals_def oe)
  from params_named [of ascii_encode ?plain _ "[]"] ai
  have 2: "Object_entries ?plain = ?plain"
    by blast
  from 1 2 3 show ?thesis
    by blast
qed

text \<open>
  The object \<open>{2: 'x', 1: 'y'}\<close>: the key \<open>"2"\<close> was created first and is sent with
  ordinal 2.
\<close>

theorem params_insertion_counterexample:
  "names_ordinals (build_params ascii_encode
       (ObjectParameters [(''2'', Str ''x''), (''1'', Str ''y'')]))
     = [(Some ''1'', Integral 1), (Some ''2'', Integral 2)]"
  by code_simp

section \<open>One call at a time\<close>

lemma length_settle: "length (settle i outcome ps) = length ps"
  by (simp add: settle_def)

lemma settle_Pending:
  assumes "outcome \<noteq> Pending" and "k < length ps" and "settle i outcome ps ! k = Pending"
  shows "ps ! k = Pending \<and> k \<noteq> i"
proof (cases "i < length ps \<and> ps ! i = Pending")
  case True
  then have "settle i outcome ps = ps[i := outcome]"
    by (simp add: settle_def)
  then show ?thesis
    using assms by (cases "k = i") simp_all
next
  case False
  then have "settle i outcome ps = ps"
    by (auto simp add: settle_def)
  then show ?thesis
    using assms False by auto
qed

lemma settle_settled:
  "k < length ps \<Longrightarrow> ps ! k \<noteq> Pending \<Longrightarrow> settle i outcome ps ! k = ps ! k"
  by (auto simp add: settle_def nth_list_update)

lemma unsettled_empty:
  "unsettled c = [] \<longleftrightarrow> (\<forall>i < length (promises c). promises c ! i \<noteq> Pending)"
  by (auto simp add: unsettled_def filter_empty_conv)

lemma awaited_send:
  assumes "unsettled c = []"
  shows "awaited (send utf8 c statement ps qt)"
proof -
  have none: "\<forall>i < length (promises c). promises c ! i \<noteq> Pending"
    using assms by (simp add: unsettled_empty)
  show ?thesis
  proof (cases "build_params utf8 ps")
    case (Inl e)
    then show ?thesis
      using none
      by (auto simp add: send_def awaited_def initQueryStream_def Let_def nth_append)
  next
    case (Inr encoded)
    then show ?thesis
      using none
      by (auto simp add: send_def awaited_def initQueryStream_def Let_def nth_append
          less_Suc_eq)
  qed
qed

lemma none_pending_after_settle:
  assumes "awaited c" and "outcome \<noteq> Pending" and "responsePromise c = Some j"
    and "k < length (promises c)"
  shows "settle j outcome (promises c) ! k \<noteq> Pending"
proof
  assume "settle j outcome (promises c) ! k = Pending"
  from settle_Pending [OF assms(2) assms(4) this]
  have "promises c ! k = Pending" and "k \<noteq> j"
    by simp_all
  then show False
    using assms(1,3,4) by (auto simp add: awaited_def)
qed

lemma awaited_on_data: "awaited c \<Longrightarrow> awaited (on_data c r)"
proof (cases "responsePromise c")
  case None
  assume "awaited c"
  then show ?thesis
    using None by (simp add: on_data_def awaited_def Let_def)
next
  case (Some j)
  assume a: "awaited c"
  have "awaited (c\<lparr>txseq := s\<rparr>)" for s
    using a by (simp add: awaited_def)
  then show ?thesis
    using Some none_pending_after_settle [of _ "Resolved r" j]
    by (simp add: on_data_def awaited_def Let_def length_settle)
qed

lemma awaited_on_error: "awaited c \<Longrightarrow> awaited (on_error c err)"
proof (cases "responsePromise c")
  case None
  assume "awaited c"
  then show ?thesis
    using None by (simp add: on_error_def)
next
  case (Some j)
  assume a: "awaited c"
  then show ?thesis
    using Some none_pending_after_settle [OF a _ Some, of "Rejected (TransportError err)"]
    by (simp add: on_error_def awaited_def length_settle)
qed

lemma awaited_on_end: "awaited c \<Longrightarrow> awaited (on_end c)"
  by (simp add: on_end_def awaited_def)

lemma awaited_on_timeout: "awaited c \<Longrightarrow> awaited (on_timeout c i)"
proof -
  assume a: "awaited c"
  have "responsePromise c = Some k"
    if "k < length (promises c)"
      and "settle i (Rejected (Timeout (timeout c))) (promises c) ! k = Pending" for k
  proof -
    from settle_Pending [OF _ that] have "promises c ! k = Pending"
      by simp
    then show ?thesis
      using a that(1) by (simp add: awaited_def)
  qed
  then show ?thesis
    using a by (simp add: on_timeout_def awaited_def length_settle)
qed

lemma awaited_run:
  "serial utf8 c es \<Longrightarrow> awaited c \<Longrightarrow> awaited (run utf8 c es)"
proof (induction es arbitrary: c)
  case Nil
  then show ?case by (simp add: run_def)
next
  case (Cons e es)
  have "awaited (step utf8 c e)"
  proof (cases e)
    case (Send statement ps qt)
    then show ?thesis
      using Cons.prems(1) by (simp add: awaited_send)
  next
    case (Data r)
    then show ?thesis
      using Cons.prems(2) by (simp add: awaited_on_data)
  next
    case (StreamError err)
    then show ?thesis
      using Cons.prems(2) by (simp add: awaited_on_error)
  next
    case StreamEnd
    then show ?thesis
      using Cons.prems(2) by (simp add: awaited_on_end)
  next
    case (TimerFires i)
    then show ?thesis
      using Cons.prems(2) by (simp add: awaited_on_timeout)
  qed
  moreover have "serial utf8 (step utf8 c e) es"
    using Cons.prems(1) by simp
  ultimately have "awaited (run utf8 (step utf8 c e) es)"
    using Cons.IH by blast
  then show ?case
    by (simp add: run_def)
qed

lemma awaited_unsettled: "awaited c \<Longrightarrow> length (unsettled c) \<le> 1"
proof (cases "responsePromise c")
  case None
  assume "awaited c"
  then have "unsettled c = []"
    using None by (auto simp add: unsettled_empty awaited_def)
  then show ?thesis by simp
next
  case (Some j)
  assume "awaited c"
  then have sub: "set (unsettled c) \<subseteq> {j}"
    using Some by (auto simp add: unsettled_def awaited_def)
  have d: "distinct (unsettled c)"
    by (simp add: unsettled_def)
  have "card (set (unsettled c)) \<le> card {j}"
    using sub by (intro card_mono) simp_all
  then show ?thesis
    using distinct_card [OF d] by simp
qed

lemma settled_stays:
  assumes "i < length (promises c)" and "promises c ! i \<noteq> Pending"
  shows "promises (step utf8 c e) ! i = promises c ! i"
proof (cases e)
  case (Send statement ps qt)
  then show ?thesis
    using assms(1)
    by (cases "build_params utf8 ps")
       (simp_all add: send_def initQueryStream_def Let_def nth_append)
next
  case (Data r)
  then show ?thesis
    using assms by (cases "responsePromise c") (simp_all add: on_data_def Let_def settle_settled)
next
  case (StreamError err)
  then show ?thesis
    using assms by (cases "responsePromise c") (simp_all add: on_error_def settle_settled)
next
  case StreamEnd
  then show ?thesis by (simp add: on_end_def)
next
  case (TimerFires j)
  then show ?thesis
    using assms by (simp add: on_timeout_def settle_settled)
qed

lemma send_encoded:
  assumes "build_params utf8 ps = Inr encoded"
  shows "written (send utf8 c statement ps qt) =
           written c @ [\<lparr>replication_id = replicationID c, sql = statement,
                          query_type = qt, params = encoded\<rparr>]"
    and "promises (send utf8 c statement ps qt) = promises c @ [Pending]"
    and "responsePromise (send utf8 c statement ps qt) = Some (length (promises c))"
    and "timers (send utf8 c statement ps qt) = timers c @ [length (promises c)]"
  using assms
  by (cases "requestStream c"; simp add: send_def written_def initQueryStream_def Let_def)+

lemma send_not_encoded:
  assumes "build_params utf8 ps = Inl err"
  shows "written (send utf8 c statement ps qt) = written c"
    and "promises (send utf8 c statement ps qt) = promises c @ [Rejected err]"
    and "responsePromise (send utf8 c statement ps qt) = responsePromise c"
  using assms
  by (cases "requestStream c"; simp add: send_def written_def initQueryStream_def Let_def)+

lemma on_data_awaiting:
  assumes "responsePromise c = Some j"
  shows "promises (on_data c r) = settle j (Resolved r) (promises c)"
    and "responsePromise (on_data c r) = None"
  using assms by (simp_all add: on_data_def Let_def)

text \<open>
  C4, as the code has it. A call of \<open>send\<close> whose parameters can be encoded writes its
  request to the stream in the call itself, adds its own unsettled promise and installs
  that promise as the awaiting party, whatever was installed before; it waits for
  nothing and there is no queue. A call whose parameters cannot be encoded is rejected
  and writes and installs nothing. The next response settles the installed awaiting
  party. When every \<open>send\<close> is made after the calls before it have settled, there is at
  most one unsettled call at any time. A promise that has settled (by a response, a
  stream error or its timeout) is not changed by anything that happens later.
\<close>

theorem send_single_flight:
  "(build_params utf8_encode ps = Inr encoded \<longrightarrow>
      written (send utf8_encode c statement ps qt) =
        written c @ [\<lparr>replication_id = replicationID c, sql = statement,
                       query_type = qt, params = encoded\<rparr>]
      \<and> promises (send utf8_encode c statement ps qt) = promises c @ [Pending]
      \<and> responsePromise (send utf8_encode c statement ps qt) = Some (length (promises c))
      \<and> timers (send utf8_encode c statement ps qt) = timers c @ [length (promises c)])
   \<and> (build_params utf8_encode ps = Inl err \<longrightarrow>
        written (send utf8_encode c statement ps qt) = written c
        \<and> promises (send utf8_encode c statement ps qt) = promises c @ [Rejected err]
        \<and> responsePromise (send utf8_encode c statement ps qt) = responsePromise c)
   \<and> (responsePromise c = Some j \<longrightarrow>
        promises (on_data c r) = settle j (Resolved r) (promises c)
        \<and> responsePromise (on_data c r) = None)
   \<and> (serial utf8_encode (new_HAClient rid t) es \<longrightarrow>
        length (unsettled (run utf8_encode (new_HAClient rid t) es)) \<le> 1)
   \<and> (i < length (promises c) \<and> promises c ! i \<noteq> Pending \<longrightarrow>
        promises (step utf8_encode c e) ! i = promises c ! i)"
proof (intro conjI impI)
  assume s: "serial utf8_encode (new_HAClient rid t) es"
  have "awaited (new_HAClient rid t)"
    by (simp add: awaited_def new_HAClient_def)
  then show "length (unsettled (run utf8_encode (new_HAClient rid t) es)) \<le> 1"
    using s by (intro awaited_unsettled awaited_run)
next
  assume "i < length (promises c) \<and> promises c ! i \<noteq> Pending"
  then show "promises (step utf8_encode c e) ! i = promises c ! i"
    by (simp add: settled_stays)
qed (simp_all add: send_encoded send_not_encoded on_data_awaiting)

theorem send_single_flight_witness:
  "written (send ascii_encode (new_HAClient ''app'' 30) ''SELECT 1'' NoParameters
              QUERY_TYPE_EXEC_QUERY)
     = [\<lparr>replication_id = ''app'', sql = ''SELECT 1'', query_type = QUERY_TYPE_EXEC_QUERY,
         params = []\<rparr>]
   \<and> responsePromise (send ascii_encode
        (send ascii_encode (new_HAClient ''app'' 30) ''SELECT 1'' NoParameters
           QUERY_TYPE_EXEC_QUERY)
        ''SELECT 2'' NoParameters QUERY_TYPE_EXEC_QUERY) = Some 1
   \<and> written (send ascii_encode (new_HAClient ''app'' 30) ''SELECT ?''
        (ObjectParameters [(''1'', Other ''symbol'')]) QUERY_TYPE_EXEC_QUERY) = []
   \<and> promises (on_data
        (send ascii_encode (new_HAClient ''app'' 30) ''SELECT 1'' NoParameters
           QUERY_TYPE_EXEC_QUERY)
        \<lparr>result_set = None, rows_affected = 0, resp_txseq = 1, resp_error = ''''\<rparr>)
     = [Resolved \<lparr>result_set = None, rows_affected = 0, resp_txseq = 1, resp_error = ''''\<rparr>]
   \<and> length (unsettled (run ascii_encode (new_HAClient ''app'' 30)
        [Send ''SELECT 1'' NoParameters QUERY_TYPE_EXEC_QUERY,
         Data \<lparr>result_set = None, rows_affected = 0, resp_txseq = 1, resp_error = ''''\<rparr>,
         Send ''SELECT 2'' NoParameters QUERY_TYPE_EXEC_QUERY,
         TimerFires 1,
         Send ''SELECT 3'' NoParameters QUERY_TYPE_EXEC_QUERY])) \<le> 1
   \<and> promises (step ascii_encode
         (run ascii_encode (new_HAClient ''app'' 30)
            [Send ''SELECT 1'' NoParameters QUERY_TYPE_EXEC_QUERY,
             Data \<lparr>result_set = None, rows_affected = 0, resp_txseq = 1, resp_error = ''''\<rparr>])
         (Data \<lparr>result_set = None, rows_affected = 0, resp_txseq = 2, resp_error = ''''\<rparr>)) ! 0
     = Resolved \<lparr>result_set = None, rows_affected = 0, resp_txseq = 1, resp_error = ''''\<rparr>"
proof -
  let ?c0 = "new_HAClient ''app'' 30"
  let ?q = QUERY_TYPE_EXEC_QUERY
  let ?r1 = "\<lparr>result_set = None, rows_affected = 0, resp_txseq = 1, resp_error = ''''\<rparr>"
  let ?r2 = "\<lparr>result_set = None, rows_affected = 0, resp_txseq = 2, resp_error = ''''\<rparr>"
  let ?es = "[Send ''SELECT 1'' NoParameters ?q, Data ?r1,
         Send ''SELECT 2'' NoParameters ?q, TimerFires 1,
         Send ''SELECT 3'' NoParameters ?q]"
  let ?s1 = "send ascii_encode ?c0 ''SELECT 1'' NoParameters ?q"
  let ?c1 = "run ascii_encode ?c0 [Send ''SELECT 1'' NoParameters ?q, Data ?r1]"
  let ?bad = "ObjectParameters [(''1'', Other ''symbol'')]"
  have b: "build_params ascii_encode NoParameters = Inr []"
    by code_simp
  have f: "build_params ascii_encode ?bad = Inl (UnsupportedType ''symbol'')"
    by code_simp
  have s: "serial ascii_encode ?c0 ?es"
    by code_simp
  have p: "0 < length (promises ?c1) \<and> promises ?c1 ! 0 \<noteq> Pending"
    by code_simp
  have v: "promises ?c1 ! 0 = Resolved ?r1"
    by code_simp
  have w: "written ?c0 = []" "promises ?c0 = []" "replicationID ?c0 = ''app''"
    by (simp_all add: new_HAClient_def written_def)
  have a: "responsePromise ?s1 = Some 0" "promises ?s1 = [Pending]"
    by code_simp+
  from send_single_flight [where utf8_encode = ascii_encode and ps = NoParameters
      and encoded = "[]" and c = ?c0 and statement = "''SELECT 1''" and qt = ?q
      and rid = "''app''" and t = 30 and es = ?es] b s
  have 1: "written ?s1 = [\<lparr>replication_id = ''app'', sql = ''SELECT 1'', query_type = ?q,
         params = []\<rparr>]"
    and 5: "length (unsettled (run ascii_encode ?c0 ?es)) \<le> 1"
    by (simp_all add: w)
  from send_single_flight [where utf8_encode = ascii_encode and ps = NoParameters
      and encoded = "[]" and c = ?s1 and statement = "''SELECT 2''" and qt = ?q
      and j = 0 and r = ?r1] b a
  have 2: "responsePromise (send ascii_encode ?s1 ''SELECT 2'' NoParameters ?q) = Some 1"
    and 4: "promises (on_data ?s1 ?r1) = [Resolved ?r1]"
    by (simp_all add: settle_def)
  from send_single_flight [where utf8_encode = ascii_encode and ps = ?bad
      and err = "UnsupportedType ''symbol''" and c = ?c0 and statement = "''SELECT ?''"
      and qt = ?q] f
  have 3: "written (send ascii_encode ?c0 ''SELECT ?'' ?bad ?q) = []"
    by (simp add: w)
  from send_single_flight [where utf8_encode = ascii_encode and c = ?c1 and i = 0
      and e = "Data ?r2"] p v
  have 6: "promises (step ascii_encode ?c1 (Data ?r2)) ! 0 = Resolved ?r1"
    by simp
  from 1 2 3 4 5 6 show ?thesis
    by blast
qed

text \<open>
  Two calls of \<open>send\<close>, the second made while the first is unsettled: both requests are on
  the stream, both calls are unsettled, and the response that comes next settles the
  second call and leaves the first waiting for its timeout.
\<close>

theorem send_no_queue_counterexample:
  "unsettled (run ascii_encode (new_HAClient ''app'' 30)
      [Send ''SELECT 1'' NoParameters QUERY_TYPE_EXEC_QUERY,
       Send ''SELECT 2'' NoParameters QUERY_TYPE_EXEC_QUERY]) = [0, 1]
   \<and> map sql (written (run ascii_encode (new_HAClient ''app'' 30)
      [Send ''SELECT 1'' NoParameters QUERY_TYPE_EXEC_QUERY,
       Send ''SELECT 2'' NoParameters QUERY_TYPE_EXEC_QUERY])) = [''SELECT 1'', ''SELECT 2'']
   \<and> promises (run ascii_encode (new_HAClient ''app'' 30)
      [Send ''SELECT 1'' NoParameters QUERY_TYPE_EXEC_QUERY,
       Send ''SELECT 2'' NoParameters QUERY_TYPE_EXEC_QUERY,
       Data \<lparr>result_set = None, rows_affected = 0, resp_txseq = 1, resp_error = ''''\<rparr>])
     = [Pending,
        Resolved \<lparr>result_set = None, rows_affected = 0, resp_txseq = 1, resp_error = ''''\<rparr>]"
  by code_simp

end
